theory Spec2Isabelle
  imports Main
begin

section \<open>Symbols and the scanner (scanner.py)\<close>

text \<open>
  Modelled from the spec: the symbol table \<open>Names\<close> (names.py) interns strings to stable
  identifiers, an identifier resolves back to its string, and two identifiers are equal
  exactly when their strings are. An identifier is therefore represented by the string it
  interns; \<open>names.lookup([s])\<close> is \<open>s\<close> and \<open>names.get_name_string(id)\<close> is \<open>id\<close>.
  Python's \<open>None\<close> in an identifier position is \<open>None\<close> of the option type.
\<close>

type_synonym ident = string

datatype symtype = KEYWORDS | DEVICETYPE | NAMES | PROPERTY | NUMBER | CL | SCL | AR | PE

record symbol =
  sym_type :: "symtype option"
  sym_id :: "ident option"
  linenum :: nat
  colnum :: nat

text \<open>Reserved words of \<open>Scanner.__init__\<close>, each the identifier of its own string.\<close>

abbreviation (input) EOF :: ident where "EOF \<equiv> []"
abbreviation COLON :: ident where "COLON \<equiv> '':''"
abbreviation SEMI_COLON :: ident where "SEMI_COLON \<equiv> '';''"
abbreviation ARROW :: ident where "ARROW \<equiv> ''->''"
abbreviation PERIOD :: ident where "PERIOD \<equiv> ''.''"
abbreviation OFF :: ident where "OFF \<equiv> ''OFF''"
abbreviation ON :: ident where "ON \<equiv> ''ON''"
abbreviation DEVICE_LIST :: ident where "DEVICE_LIST \<equiv> ''DEVICE_LIST''"
abbreviation CONNECTION_LIST :: ident where "CONNECTION_LIST \<equiv> ''CONNECTION_LIST''"
abbreviation MONITOR_LIST :: ident where "MONITOR_LIST \<equiv> ''MONITOR_LIST''"
abbreviation END :: ident where "END \<equiv> ''END''"

definition initial_states :: "ident list" where
  "initial_states = [OFF, ON]"

definition keywords_list :: "ident list" where
  "keywords_list = [DEVICE_LIST, CONNECTION_LIST, MONITOR_LIST, END]"

definition device_keywords :: "ident list" where
  "device_keywords = [''AND'', ''NAND'', ''OR'', ''NOR'', ''XOR'', ''DTYPE'', ''CLOCK'',
     ''SWITCH'', ''SIGGEN'']"

text \<open>
  The state of a \<open>Scanner\<close> object. \<open>defi_file\<close> is the unread remainder of the open file,
  \<open>file_text\<close> its whole content (\<open>print_line\<close> rewinds and reads it again). The character
  last read is \<open>Some c\<close>; the empty string that \<open>read(1)\<close> gives at the end of the file
  and the \<open>None\<close> that \<open>get_next_non_whitespace_character\<close> returns when its loop runs
  out are both \<open>None\<close>: the code only ever tests them for truth or compares them with a
  character. The definition language is ASCII, one byte a character.
\<close>

record scanner =
  defi_file :: string
  file_text :: string
  filesize :: nat
  current_position :: nat
  current_char :: "char option"
  line_counter :: nat
  col_counter :: nat
  comment_switch :: nat

definition Scanner :: "string \<Rightarrow> scanner" where
  "Scanner text = \<lparr>defi_file = text, file_text = text, filesize = length text,
     current_position = 0, current_char = Some CHR '' '', line_counter = 1,
     col_counter = 0, comment_switch = 0\<rparr>"

text \<open>Python's \<open>str\<close> predicates on ASCII characters.\<close>

definition isspace :: "char \<Rightarrow> bool" where
  "isspace c = (c \<in> set [CHR '' '', CHR 0x09, CHR 0x0A, CHR 0x0B, CHR 0x0C, CHR 0x0D,
     CHR 0x1C, CHR 0x1D, CHR 0x1E, CHR 0x1F])"

definition isdigit :: "char \<Rightarrow> bool" where
  "isdigit c = (c \<in> set ''0123456789'')"

definition isalpha :: "char \<Rightarrow> bool" where
  "isalpha c = (c \<in> set ''abcdefghijklmnopqrstuvwxyzABCDEFGHIJKLMNOPQRSTUVWXYZ'')"

definition isalnum :: "char \<Rightarrow> bool" where
  "isalnum c = (isalpha c \<or> isdigit c)"

definition get_next_character :: "scanner \<Rightarrow> char option \<times> scanner" where
  "get_next_character s =
     (case defi_file s of
        [] \<Rightarrow> (None, s\<lparr>col_counter := col_counter s + 1,
                        current_position := current_position s + 1\<rparr>)
      | c # cs \<Rightarrow>
          (let s1 = s\<lparr>defi_file := cs, col_counter := col_counter s + 1,
                      current_position := current_position s + 1\<rparr>
           in if c = CHR 0x0A
              then (Some c, s1\<lparr>line_counter := line_counter s1 + 1, col_counter := 0,
                               comment_switch :=
                                 (if comment_switch s1 = 1 then 0 else comment_switch s1)\<rparr>)
              else (Some c, s1)))"

text \<open>
  \<open>for i in range(self.current_position, self.filesize)\<close>: the range is fixed when the
  loop starts; when it runs out the method returns \<open>None\<close>.
\<close>

fun gnnwc_loop :: "nat \<Rightarrow> scanner \<Rightarrow> char option \<times> scanner" where
  "gnnwc_loop 0 s = (None, s)"
| "gnnwc_loop (Suc n) s =
     (case get_next_character s of
        (None, s') \<Rightarrow> (None, s')
      | (Some c, s') \<Rightarrow> if \<not> isspace c then (Some c, s') else gnnwc_loop n s')"

definition get_next_non_whitespace_character :: "scanner \<Rightarrow> char option \<times> scanner" where
  "get_next_non_whitespace_character s =
     gnnwc_loop (filesize s - current_position s) s"

text \<open>The measure of what is left to scan: the unread characters and the current one.\<close>

definition weight :: "scanner \<Rightarrow> nat" where
  "weight s = length (defi_file s) + (if current_char s = None then 0 else 1)"

lemma get_next_character_length:
  "get_next_character s = (c, s') \<Longrightarrow>
     length (defi_file s') \<le> length (defi_file s) \<and>
     (c \<noteq> None \<longrightarrow> length (defi_file s') < length (defi_file s))"
  by (auto simp: get_next_character_def Let_def split: list.splits if_splits)

lemma gnnwc_loop_length:
  "gnnwc_loop n s = (c, s') \<Longrightarrow>
     length (defi_file s') \<le> length (defi_file s) \<and>
     (c \<noteq> None \<longrightarrow> length (defi_file s') < length (defi_file s))"
proof (induction n arbitrary: s)
  case 0
  then show ?case by simp
next
  case (Suc n)
  obtain d t where g: "get_next_character s = (d, t)" by (cases "get_next_character s")
  note gl = get_next_character_length [OF g]
  show ?case
  proof (cases d)
    case None
    with Suc.prems g gl show ?thesis by simp
  next
    case (Some x)
    show ?thesis
    proof (cases "isspace x")
      case True
      with Suc.prems g Some have "gnnwc_loop n t = (c, s')" by simp
      from Suc.IH [OF this] gl show ?thesis by auto
    next
      case False
      with Suc.prems g Some gl show ?thesis by auto
    qed
  qed
qed

lemma gnnwc_length:
  "get_next_non_whitespace_character s = (c, s') \<Longrightarrow>
     length (defi_file s') \<le> length (defi_file s) \<and>
     (c \<noteq> None \<longrightarrow> length (defi_file s') < length (defi_file s))"
  unfolding get_next_non_whitespace_character_def by (rule gnnwc_loop_length)

lemma gnnwc_weight:
  "get_next_non_whitespace_character s = (c, s') \<Longrightarrow>
     weight (s'\<lparr>current_char := c\<rparr>) \<le> length (defi_file s)"
  using gnnwc_length [of s c s'] by (auto simp: weight_def)

lemma get_next_character_weight:
  "get_next_character s = (c, s') \<Longrightarrow>
     weight (s'\<lparr>current_char := c\<rparr>) \<le> length (defi_file s)"
  using get_next_character_length [of s c s'] by (auto simp: weight_def)

text \<open>The \<open>while self.comment_switch != 0\<close> loop of \<open>comment_check\<close>.\<close>

definition comment_step :: "scanner \<Rightarrow> scanner" where
  "comment_step s =
     (let s1 = (if comment_switch s = 2 \<and> current_char s = Some CHR ''*''
                then (case get_next_character s of
                        (c, s') \<Rightarrow>
                          (if c = Some CHR ''/''
                           then s'\<lparr>current_char := c, comment_switch := 0\<rparr>
                           else s'\<lparr>current_char := c\<rparr>))
                else s)
      in case get_next_non_whitespace_character s1 of
           (c2, s2) \<Rightarrow> s2\<lparr>current_char := c2\<rparr>)"

lemma comment_step_weight:
  "current_char s \<noteq> None \<Longrightarrow> weight (comment_step s) < weight s"
proof -
  assume cur: "current_char s \<noteq> None"
  define s1 where "s1 = (if comment_switch s = 2 \<and> current_char s = Some CHR ''*''
                then (case get_next_character s of
                        (c, s') \<Rightarrow>
                          (if c = Some CHR ''/''
                           then s'\<lparr>current_char := c, comment_switch := 0\<rparr>
                           else s'\<lparr>current_char := c\<rparr>))
                else s)"
  have l1: "length (defi_file s1) \<le> length (defi_file s)"
    using get_next_character_length [of s]
    by (auto simp: s1_def split: prod.splits)
  obtain c2 s2 where g: "get_next_non_whitespace_character s1 = (c2, s2)"
    by (cases "get_next_non_whitespace_character s1")
  have "comment_step s = s2\<lparr>current_char := c2\<rparr>"
    using g by (simp add: comment_step_def s1_def [symmetric])
  moreover have "weight (s2\<lparr>current_char := c2\<rparr>) \<le> length (defi_file s1)"
    by (rule gnnwc_weight [OF g])
  moreover have "length (defi_file s) < weight s"
    using cur by (simp add: weight_def)
  ultimately show ?thesis using l1 by simp
qed

function comment_loop :: "scanner \<Rightarrow> scanner" where
  "comment_loop s =
     (if comment_switch s \<noteq> 0
      then (if current_char s = None then s else comment_loop (comment_step s))
      else s)"
  by pat_completeness auto
termination
  by (relation "measure weight") (auto simp: comment_step_weight)

declare comment_loop.simps [simp del]

lemma comment_loop_stop:
  "comment_switch s = 0 \<or> current_char s = None \<Longrightarrow> comment_loop s = s"
  using comment_loop.simps [of s] by auto

lemma comment_loop_step:
  "comment_switch s \<noteq> 0 \<Longrightarrow> current_char s \<noteq> None \<Longrightarrow>
     comment_loop s = comment_loop (comment_step s)"
  using comment_loop.simps [of s] by auto

lemma comment_loop_weight: "weight (comment_loop s) \<le> weight s"
proof (induction s rule: comment_loop.induct)
  case (1 s)
  show ?case
  proof (cases "comment_switch s \<noteq> 0 \<and> current_char s \<noteq> None")
    case True
    then have "comment_loop s = comment_loop (comment_step s)"
      by (simp add: comment_loop_step)
    moreover have "weight (comment_loop (comment_step s)) \<le> weight (comment_step s)"
      using True by (intro "1.IH") auto
    ultimately show ?thesis using comment_step_weight [of s] True by simp
  next
    case False
    then have "comment_loop s = s" by (auto simp: comment_loop_stop)
    then show ?thesis by simp
  qed
qed

text \<open>
  The part of \<open>comment_check\<close> between seeing a \<open>/\<close> and the recursive call: read one
  character, set the switch for \<open>//\<close> or \<open>/*\<close>, read on to the next non-blank character
  (whether or not a comment was opened), run the loop.
\<close>

definition comment_body :: "scanner \<Rightarrow> scanner" where
  "comment_body s =
     (case get_next_character s of
        (c, s1) \<Rightarrow>
          (let s2 = s1\<lparr>current_char := c\<rparr>;
               s3 = (if c = Some CHR ''/'' then s2\<lparr>comment_switch := 1\<rparr> else s2);
               s4 = (if c = Some CHR ''*'' then s3\<lparr>comment_switch := 2\<rparr> else s3)
           in case get_next_non_whitespace_character s4 of
                (c5, s5) \<Rightarrow> comment_loop (s5\<lparr>current_char := c5\<rparr>)))"

lemma comment_body_weight:
  "current_char s \<noteq> None \<Longrightarrow> weight (comment_body s) < weight s"
proof -
  assume cur: "current_char s \<noteq> None"
  obtain c s1 where g1: "get_next_character s = (c, s1)"
    by (cases "get_next_character s")
  define s4 where "s4 = (let s2 = s1\<lparr>current_char := c\<rparr>;
               s3 = (if c = Some CHR ''/'' then s2\<lparr>comment_switch := 1\<rparr> else s2)
           in (if c = Some CHR ''*'' then s3\<lparr>comment_switch := 2\<rparr> else s3))"
  have l4: "length (defi_file s4) \<le> length (defi_file s)"
    using get_next_character_length [OF g1] by (simp add: s4_def Let_def)
  obtain c5 s5 where g5: "get_next_non_whitespace_character s4 = (c5, s5)"
    by (cases "get_next_non_whitespace_character s4")
  have "comment_body s = comment_loop (s5\<lparr>current_char := c5\<rparr>)"
    using g1 g5 by (simp add: comment_body_def s4_def Let_def)
  moreover have "weight (comment_loop (s5\<lparr>current_char := c5\<rparr>)) \<le> weight (s5\<lparr>current_char := c5\<rparr>)"
    by (rule comment_loop_weight)
  moreover have "weight (s5\<lparr>current_char := c5\<rparr>) \<le> length (defi_file s4)"
    by (rule gnnwc_weight [OF g5])
  moreover have "length (defi_file s) < weight s"
    using cur by (simp add: weight_def)
  ultimately show ?thesis using l4 by simp
qed

function comment_check :: "scanner \<Rightarrow> scanner" where
  "comment_check s =
     (if current_char s = Some CHR ''/'' then comment_check (comment_body s) else s)"
  by pat_completeness auto
termination
  by (relation "measure weight") (auto simp: comment_body_weight)

declare comment_check.simps [simp del]

lemma comment_check_stop:
  "current_char s \<noteq> Some CHR ''/'' \<Longrightarrow> comment_check s = s"
  using comment_check.simps [of s] by auto

lemma comment_check_step:
  "current_char s = Some CHR ''/'' \<Longrightarrow> comment_check s = comment_check (comment_body s)"
  using comment_check.simps [of s] by auto

lemma comment_check_weight: "weight (comment_check s) \<le> weight s"
proof (induction s rule: comment_check.induct)
  case (1 s)
  show ?case
  proof (cases "current_char s = Some CHR ''/''")
    case True
    then have "comment_check s = comment_check (comment_body s)"
      by (simp add: comment_check_step)
    moreover have "weight (comment_check (comment_body s)) \<le> weight (comment_body s)"
      using True by (intro "1.IH")
    ultimately show ?thesis using comment_body_weight [of s] True by simp
  next
    case False
    then have "comment_check s = s" by (simp add: comment_check_stop)
    then show ?thesis by simp
  qed
qed

text \<open>
  The two accumulating loops of \<open>get_symbol\<close>,
  \<open>while self.current_char.isdigit()\<close> and
  \<open>while self.current_char.isalnum() or self.current_char == '_'\<close>,
  are one function of the test; every Python \<open>str\<close> predicate is false on the empty string.
\<close>

function read_while :: "(char \<Rightarrow> bool) \<Rightarrow> string \<Rightarrow> scanner \<Rightarrow> string \<times> scanner" where
  "read_while P acc s =
     (case current_char s of
        None \<Rightarrow> (acc, s)
      | Some c \<Rightarrow>
          if P c
          then (case get_next_character s of
                  (d, s') \<Rightarrow> read_while P (acc @ [c]) (s'\<lparr>current_char := d\<rparr>))
          else (acc, s))"
  by pat_completeness auto
termination
  by (relation "measure (\<lambda>(P, acc, s). weight s)")
     (auto simp: weight_def dest!: get_next_character_length [OF sym])

declare read_while.simps [simp del]

lemma read_while_weight: "weight (snd (read_while P acc s)) \<le> weight s"
proof (induction P acc s rule: read_while.induct)
  case (1 P acc s)
  show ?case
  proof (cases "current_char s")
    case None
    then show ?thesis by (simp add: read_while.simps [of P acc s])
  next
    case (Some c)
    show ?thesis
    proof (cases "P c")
      case False
      with Some show ?thesis by (simp add: read_while.simps [of P acc s])
    next
      case True
      obtain d s' where g: "get_next_character s = (d, s')"
        by (cases "get_next_character s")
      have "weight (snd (read_while P (acc @ [c]) (s'\<lparr>current_char := d\<rparr>)))
              \<le> weight (s'\<lparr>current_char := d\<rparr>)"
        using Some True g by (intro "1.IH") auto
      moreover have "weight (s'\<lparr>current_char := d\<rparr>) \<le> length (defi_file s)"
        by (rule get_next_character_weight [OF g])
      moreover have "read_while P acc s = read_while P (acc @ [c]) (s'\<lparr>current_char := d\<rparr>)"
        using Some True g by (simp add: read_while.simps [of P acc s])
      ultimately show ?thesis by (simp add: weight_def)
    qed
  qed
qed

lemma read_while_acc: "\<exists>w. fst (read_while P acc s) = acc @ w"
proof (induction P acc s rule: read_while.induct)
  case (1 P acc s)
  show ?case
  proof (cases "current_char s")
    case None
    then show ?thesis by (simp add: read_while.simps [of P acc s])
  next
    case (Some c)
    show ?thesis
    proof (cases "P c")
      case False
      with Some show ?thesis by (simp add: read_while.simps [of P acc s])
    next
      case True
      obtain d s' where g: "get_next_character s = (d, s')"
        by (cases "get_next_character s")
      have "\<exists>w. fst (read_while P (acc @ [c]) (s'\<lparr>current_char := d\<rparr>)) = (acc @ [c]) @ w"
        using Some True g by (intro "1.IH") auto
      moreover have "read_while P acc s = read_while P (acc @ [c]) (s'\<lparr>current_char := d\<rparr>)"
        using Some True g by (simp add: read_while.simps [of P acc s])
      ultimately show ?thesis by auto
    qed
  qed
qed

lemma read_while_first:
  assumes "current_char s = Some c" and "P c"
  shows "weight (snd (read_while P acc s)) < weight s \<and> fst (read_while P acc s) \<noteq> acc"
proof -
  obtain d s' where g: "get_next_character s = (d, s')"
    by (cases "get_next_character s")
  have eq: "read_while P acc s = read_while P (acc @ [c]) (s'\<lparr>current_char := d\<rparr>)"
    using assms g by (simp add: read_while.simps [of P acc s])
  have "weight (snd (read_while P (acc @ [c]) (s'\<lparr>current_char := d\<rparr>)))
          \<le> weight (s'\<lparr>current_char := d\<rparr>)"
    by (rule read_while_weight)
  moreover have "weight (s'\<lparr>current_char := d\<rparr>) \<le> length (defi_file s)"
    by (rule get_next_character_weight [OF g])
  moreover have "length (defi_file s) < weight s"
    using assms by (simp add: weight_def)
  moreover obtain w where "fst (read_while P (acc @ [c]) (s'\<lparr>current_char := d\<rparr>)) = (acc @ [c]) @ w"
    using read_while_acc by blast
  ultimately show ?thesis using eq by auto
qed

text \<open>The classification of a word by the reserved lists, in the order of the code.\<close>

definition word_type :: "ident \<Rightarrow> symtype" where
  "word_type w =
     (if w \<in> set keywords_list then KEYWORDS
      else if w \<in> set device_keywords then DEVICETYPE
      else if w \<in> set initial_states then PROPERTY
      else NAMES)"

text \<open>The last branch of \<open>get_symbol\<close>: punctuation, the arrow, any other character.\<close>

definition punctuation :: "char \<Rightarrow> scanner \<Rightarrow> symtype option \<times> ident option \<times> scanner" where
  "punctuation c s =
     (if c = CHR '':'' then (Some CL, Some COLON, s)
      else if c = CHR '';'' then (Some SCL, Some SEMI_COLON, s)
      else if c = CHR ''.'' then (Some PE, Some PERIOD, s)
      else if c = CHR ''-''
      then (case get_next_character s of
              (d, s') \<Rightarrow>
                if d = Some CHR ''>''
                then (Some AR, Some ARROW, s'\<lparr>current_char := d\<rparr>)
                else (None, None, s'\<lparr>current_char := d\<rparr>))
      else (None, Some [c], s))"

definition eof_symbol :: "scanner \<Rightarrow> symbol" where
  "eof_symbol s = \<lparr>sym_type = None, sym_id = Some EOF, linenum = line_counter s,
     colnum = col_counter s\<rparr>"

text \<open>
  \<open>get_symbol\<close> from the line \<open>colnum = self.col_counter\<close> on: the position is taken
  after blanks and comments are skipped, then the symbol is read.
\<close>

definition scan_token :: "scanner \<Rightarrow> symbol \<times> scanner" where
  "scan_token s2 =
     (case current_char s2 of
        None \<Rightarrow> (eof_symbol s2, s2)
      | Some c \<Rightarrow>
          if isdigit c
          then (case read_while isdigit [] s2 of
                  (num_string, s3) \<Rightarrow>
                    (\<lparr>sym_type = Some NUMBER, sym_id = Some num_string,
                      linenum = line_counter s2, colnum = col_counter s2\<rparr>, s3))
          else if isalpha c
          then (case read_while (\<lambda>x. isalnum x \<or> x = CHR ''_'') [] s2 of
                  (word, s3) \<Rightarrow>
                    (\<lparr>sym_type = Some (word_type word), sym_id = Some word,
                      linenum = line_counter s2, colnum = col_counter s2\<rparr>, s3))
          else (case punctuation c s2 of
                  (ty, i, s3) \<Rightarrow>
                    (case get_next_character s3 of
                       (e, s4) \<Rightarrow>
                         (\<lparr>sym_type = ty, sym_id = i,
                           linenum = line_counter s2, colnum = col_counter s2\<rparr>,
                          s4\<lparr>current_char := e\<rparr>))))"

definition skip_blanks :: "scanner \<Rightarrow> scanner" where
  "skip_blanks s =
     (case get_next_non_whitespace_character s of (c, s') \<Rightarrow> s'\<lparr>current_char := c\<rparr>)"

definition get_symbol :: "scanner \<Rightarrow> symbol \<times> scanner" where
  "get_symbol s =
     (case current_char s of
        None \<Rightarrow> (eof_symbol s, s)
      | Some c0 \<Rightarrow>
          scan_token (comment_check (if isspace c0 then skip_blanks s else s)))"

lemma punctuation_length:
  "punctuation c s = (ty, i, s3) \<Longrightarrow>
     length (defi_file s3) \<le> length (defi_file s) \<and> i \<noteq> Some EOF"
  using get_next_character_length [of s]
  by (auto simp: punctuation_def split: if_splits prod.splits)

lemma skip_blanks_weight: "weight (skip_blanks s) \<le> length (defi_file s)"
proof -
  obtain c t where g: "get_next_non_whitespace_character s = (c, t)"
    by (cases "get_next_non_whitespace_character s")
  from gnnwc_weight [OF g] g show ?thesis by (simp add: skip_blanks_def)
qed

lemma scan_token_weight:
  assumes "scan_token s2 = (y, s')"
  shows "weight s' \<le> weight s2 \<and> (sym_id y \<noteq> Some EOF \<longrightarrow> weight s' < weight s2)"
proof (cases "current_char s2")
  case None
  with assms show ?thesis by (auto simp: scan_token_def eof_symbol_def)
next
  case c: (Some c)
  show ?thesis
  proof (cases "isdigit c")
    case True
    from read_while_first [of s2 c isdigit "[]"] c True
    have "weight (snd (read_while isdigit [] s2)) < weight s2" by simp
    with assms c True show ?thesis
      by (auto simp: scan_token_def split: prod.splits)
  next
    case nd: False
    show ?thesis
    proof (cases "isalpha c")
      case True
      from read_while_first [of s2 c "\<lambda>x. isalnum x \<or> x = CHR ''_''" "[]"] c True
      have "weight (snd (read_while (\<lambda>x. isalnum x \<or> x = CHR ''_'') [] s2)) < weight s2"
        by (simp add: isalnum_def)
      with assms c True nd show ?thesis
        by (auto simp: scan_token_def split: prod.splits)
    next
      case False
      obtain ty i s3 where p: "punctuation c s2 = (ty, i, s3)"
        by (cases "punctuation c s2")
      obtain e s4 where g: "get_next_character s3 = (e, s4)"
        by (cases "get_next_character s3")
      have "weight (s4\<lparr>current_char := e\<rparr>) \<le> length (defi_file s3)"
        by (rule get_next_character_weight [OF g])
      moreover have "length (defi_file s3) \<le> length (defi_file s2)"
        using punctuation_length [OF p] by simp
      moreover have "length (defi_file s2) < weight s2"
        using c by (simp add: weight_def)
      moreover have "s' = s4\<lparr>current_char := e\<rparr>"
        using assms c nd False p g by (simp add: scan_token_def)
      ultimately show ?thesis by simp
    qed
  qed
qed

lemma get_symbol_weight:
  assumes "get_symbol s = (y, s')"
  shows "weight s' \<le> weight s \<and> (sym_id y \<noteq> Some EOF \<longrightarrow> weight s' < weight s)"
proof (cases "current_char s")
  case None
  with assms show ?thesis by (auto simp: get_symbol_def eof_symbol_def)
next
  case (Some c0)
  define s1 where "s1 = (if isspace c0 then skip_blanks s else s)"
  have "weight s1 \<le> weight s"
    using skip_blanks_weight [of s] Some by (auto simp: s1_def weight_def)
  then have w2: "weight (comment_check s1) \<le> weight s"
    using comment_check_weight [of s1] by simp
  have "scan_token (comment_check s1) = (y, s')"
    using assms Some by (simp add: get_symbol_def s1_def)
  from scan_token_weight [OF this] w2 show ?thesis by auto
qed

section \<open>The parser (parse.py)\<close>

text \<open>
  Modelled from the spec: the error codes that \<open>names.unique_error_codes\<close> (names.py)
  allocates to the parser, the monitors, the network and the devices are pairwise
  distinct, so they are the constructors of one datatype. The first thirteen are the
  parser's own; then come those of \<open>monitors\<close>, \<open>network\<close> and \<open>devices\<close>, each with
  its \<open>NO_ERROR\<close>.
\<close>

datatype error_code =
    SYNTAX_COLON | KEYWORD_ERROR | SYMBOL_TYPE_ERROR | NO_DEVICE | BAD_NAME | NOT_VALID_NAME
  | SYNTAX | END_ERROR | IDENTIFIER_PRESENT | UNCONNECTED_INPUTS | NO_MONITOR
  | NO_IDENTIFIER | NO_EOF
  | NOT_OUTPUT | MONITOR_PRESENT | MONITORS_NO_ERROR
  | INPUT_TO_INPUT | OUTPUT_TO_OUTPUT | INPUT_CONNECTED | PORT_ABSENT | DEVICE_ABSENT
  | NETWORK_NO_ERROR
  | INVALID_QUALIFIER | NO_QUALIFIER | BAD_DEVICE | QUALIFIER_PRESENT | DEVICE_PRESENT
  | DEVICES_NO_ERROR

text \<open>
  A device property as \<open>get_property\<close> builds it: an integer, or for a signal generator
  the digit string itself.
\<close>

datatype property = PInt int | PStr string

datatype io = INPUT | OUTPUT

text \<open>
  The classes \<open>Devices\<close>, \<open>Network\<close> and \<open>Monitors\<close> (devices.py, network.py,
  monitors.py) are not part of the sources at hand. The parser is therefore a function of
  what it uses of them: their joint state \<open>'w\<close>, the methods it calls, and the constants
  it reads. \<open>get_device\<close> gives the \<open>device_kind\<close> of the device found, the only attribute
  the parser reads, or \<open>None\<close>; each \<open>make_\<close> method gives its error code and the new
  state; \<open>monitors_dictionary\<close> is read only for emptiness.
\<close>

record 'w collab =
  get_device :: "'w \<Rightarrow> ident option \<Rightarrow> ident option"
  make_device :: "'w \<Rightarrow> ident option \<Rightarrow> ident option \<Rightarrow> property option \<Rightarrow> error_code \<times> 'w"
  make_connection :: "'w \<Rightarrow> ident option \<Rightarrow> ident option \<Rightarrow> ident option \<Rightarrow> ident option
                        \<Rightarrow> error_code \<times> 'w"
  check_network :: "'w \<Rightarrow> bool"
  make_monitor :: "'w \<Rightarrow> ident option \<Rightarrow> ident option \<Rightarrow> error_code \<times> 'w"
  monitors_dictionary_empty :: "'w \<Rightarrow> bool"
  D_TYPE :: ident
  SWITCH :: ident
  CLOCK :: ident
  SIGGEN :: ident
  XOR :: ident
  gate_types :: "ident list"
  LOW :: property
  HIGH :: property

record 'w parser =
  scanner :: scanner
  symbol :: symbol
  error_count :: nat
  error_messages :: "(string \<times> nat \<times> nat) list"
  missing_end :: bool
  reached_eof :: bool
  world :: 'w

text \<open>
  \<open>Parser.__init__\<close>. The attribute \<open>symbol\<close> does not exist before \<open>parse_network\<close>
  assigns it; the placeholder here is never read.
\<close>

definition Parser :: "'w \<Rightarrow> scanner \<Rightarrow> 'w parser" where
  "Parser w sc = \<lparr>scanner = sc,
     symbol = \<lparr>sym_type = None, sym_id = None, linenum = 0, colnum = 0\<rparr>,
     error_count = 0, error_messages = [], missing_end = False, reached_eof = False,
     world = w\<rparr>"

definition symbol_types :: "symtype \<Rightarrow> string" where
  "symbol_types ty =
     (case ty of
        KEYWORDS \<Rightarrow> ''KEYWORD'' | DEVICETYPE \<Rightarrow> ''DEVICE TYPE'' | NAMES \<Rightarrow> ''NAME''
      | PROPERTY \<Rightarrow> ''INITIAL STATE'' | NUMBER \<Rightarrow> ''NUMBER'' | CL \<Rightarrow> ''COLON''
      | SCL \<Rightarrow> ''SEMI COLON'' | AR \<Rightarrow> ''ARROW (->)'' | PE \<Rightarrow> ''PERIOD (.)'')"

text \<open>\<open>self.symbol = self.scanner.get_symbol()\<close>\<close>

definition next_symbol :: "'w parser \<Rightarrow> 'w parser" where
  "next_symbol p = (case get_symbol (scanner p) of (y, s') \<Rightarrow> p\<lparr>symbol := y, scanner := s'\<rparr>)"

text \<open>\<open>x in xs\<close> for an identifier that may be \<open>None\<close> and a list of identifiers.\<close>

definition id_in :: "ident option \<Rightarrow> ident list \<Rightarrow> bool" where
  "id_in i xs = (case i of None \<Rightarrow> False | Some x \<Rightarrow> x \<in> set xs)"

text \<open>Python's \<open>str\<close> of a natural number, and \<open>int\<close> of a digit string.\<close>

definition digit_char :: "nat \<Rightarrow> char" where
  "digit_char d = ''0123456789'' ! d"

function str :: "nat \<Rightarrow> string" where
  "str n = (if n < 10 then [digit_char n] else str (n div 10) @ [digit_char (n mod 10)])"
  by pat_completeness auto
termination
  by (relation "measure id") auto

declare str.simps [simp del]

definition digit_val :: "char \<Rightarrow> int" where
  "digit_val ch =
     (if ch = CHR ''1'' then 1 else if ch = CHR ''2'' then 2 else if ch = CHR ''3'' then 3
      else if ch = CHR ''4'' then 4 else if ch = CHR ''5'' then 5
      else if ch = CHR ''6'' then 6 else if ch = CHR ''7'' then 7
      else if ch = CHR ''8'' then 8 else if ch = CHR ''9'' then 9 else 0)"

definition int_of_string :: "string \<Rightarrow> int" where
  "int_of_string w = foldl (\<lambda>a ch. 10 * a + digit_val ch) 0 w"

definition apostrophe :: string where
  "apostrophe = [CHR 0x27]"

definition newline :: string where
  "newline = [CHR 0x0A]"

text \<open>
  The \<open>if\<close>/\<open>elif\<close> chain of \<open>Parser.error\<close>: the text added to the message and the
  identifiers added to \<open>stopping_symbol\<close>, which starts as \<open>[EOF]\<close>. A code that no
  branch names adds nothing. \<open>vararg\<close> is an identifier, a symbol-type name or absent.
\<close>

definition semi_end :: "ident list" where
  "semi_end = [SEMI_COLON, END]"

definition vararg_string :: "string option \<Rightarrow> string" where
  "vararg_string v = (case v of None \<Rightarrow> [] | Some x \<Rightarrow> x)"

definition error_case :: "'w collab \<Rightarrow> error_code \<Rightarrow> string option \<Rightarrow> string \<times> ident list" where
  "error_case c error_type vararg =
     (case error_type of
        NO_EOF \<Rightarrow> (''End of file not reached.'', [])
      | KEYWORD_ERROR \<Rightarrow>
          (''List declaration not made. Expected '' @ apostrophe @ vararg_string vararg
             @ apostrophe @ ''. Advancing to next list.'', [END])
      | SYNTAX_COLON \<Rightarrow>
          (''Expected a '' @ apostrophe @ '':'' @ apostrophe
             @ '' after a list declaration. Advancing to next list.'', [END])
      | SYMBOL_TYPE_ERROR \<Rightarrow> (''Expected a '' @ vararg_string vararg @ ''.'', semi_end)
      | NO_DEVICE \<Rightarrow> (''This does not match a known device.'', semi_end)
      | BAD_NAME \<Rightarrow>
          (''Expected a name for the device. Make sure it is not one of the ''
             @ ''reserved keywords and follows the correct syntax.'', semi_end)
      | NOT_VALID_NAME \<Rightarrow> (''Already used as a name for another device.'', semi_end)
      | SYNTAX \<Rightarrow>
          (''Expected a '' @ apostrophe @ vararg_string vararg @ apostrophe @ ''.'', semi_end)
      | END_ERROR \<Rightarrow>
          (''Expected either another item in list or the keyword END.'', keywords_list)
      | IDENTIFIER_PRESENT \<Rightarrow> (''Not expecting an identifier.'', semi_end)
      | NO_IDENTIFIER \<Rightarrow> (''No identifier present.'', semi_end)
      | UNCONNECTED_INPUTS \<Rightarrow> (''Not all inputs are connected.'', [])
      | NO_MONITOR \<Rightarrow>
          (''No monitor points chosen. At least one output must be monitored.'', [])
      | NOT_OUTPUT \<Rightarrow>
          (''This point cannot be monitored as it is not an output.'', semi_end)
      | MONITOR_PRESENT \<Rightarrow> (''This point is already being monitored.'', semi_end)
      | INPUT_TO_INPUT \<Rightarrow> (''Cannot connect an input to an input.'', semi_end)
      | OUTPUT_TO_OUTPUT \<Rightarrow> (''Cannot connect an output to an output.'', semi_end)
      | INPUT_CONNECTED \<Rightarrow> (''The input is already connected elsewhere.'', semi_end)
      | PORT_ABSENT \<Rightarrow> (''One of the ports does not exist.'', semi_end)
      | DEVICE_ABSENT \<Rightarrow> (''One of the devices does not exist in network.'', semi_end)
      | INVALID_QUALIFIER \<Rightarrow>
          (''Property not recognised for device.''
             @ (if vararg = Some (SWITCH c)
                then '' Make sure property is either '' @ apostrophe @ ''OFF'' @ apostrophe
                       @ '' or '' @ apostrophe @ ''ON'' @ apostrophe @ ''.''
                else if vararg = Some (CLOCK c)
                then '' Make sure property is a positive integer.''
                else if vararg = Some (SIGGEN c)
                then '' Make sure property contains only '' @ apostrophe @ ''0'' @ apostrophe
                       @ ''s and '' @ apostrophe @ ''1'' @ apostrophe @ ''s.''
                else if id_in vararg (gate_types c) \<and> vararg \<noteq> Some (XOR c)
                then '' Make sure property is an integer less than 17 (and greater than 0).''
                else []), semi_end)
      | NO_QUALIFIER \<Rightarrow> (''Expected a property for the device.'', semi_end)
      | BAD_DEVICE \<Rightarrow>
          (''Something went wrong adding this device to the network.'', semi_end)
      | QUALIFIER_PRESENT \<Rightarrow> (''Property not required for this device.'', semi_end)
      | DEVICE_PRESENT \<Rightarrow> (''This device already exists.'', semi_end)
      | _ \<Rightarrow> ([], []))"

text \<open>
  What is left to parse: the scanner's measure, and one more while the current symbol is
  not the end of the file. Reading a symbol never raises it, and lowers it unless the
  current symbol is the end of the file already.
\<close>

definition pweight :: "'w parser \<Rightarrow> nat" where
  "pweight p = weight (scanner p) + (if sym_id (symbol p) = Some EOF then 0 else 1)"

lemma next_symbol_pweight:
  "pweight (next_symbol p) \<le> pweight p \<and>
   (sym_id (symbol p) \<noteq> Some EOF \<longrightarrow> pweight (next_symbol p) < pweight p)"
proof -
  obtain y s' where g: "get_symbol (scanner p) = (y, s')"
    by (cases "get_symbol (scanner p)")
  from get_symbol_weight [OF g] g show ?thesis
    by (auto simp: pweight_def next_symbol_def)
qed

lemma next_symbol_le: "pweight (next_symbol p) \<le> pweight p"
  using next_symbol_pweight [of p] by simp

lemma next_symbol_less:
  "sym_id (symbol p) \<noteq> Some EOF \<Longrightarrow> pweight (next_symbol p) < pweight p"
  using next_symbol_pweight [of p] by simp

text \<open>
  \<open>while self.symbol.id not in stopping_symbol\<close>, with \<open>stopping_symbol\<close> the list
  \<open>[EOF]\<close> extended by \<open>stopping\<close>.
\<close>

function skip_symbols :: "ident list \<Rightarrow> 'w parser \<Rightarrow> 'w parser" where
  "skip_symbols stopping p =
     (if \<not> id_in (sym_id (symbol p)) (EOF # stopping)
      then skip_symbols stopping (next_symbol p)
      else p)"
  by pat_completeness auto
termination
  by (relation "measure (\<lambda>(stopping, p). pweight p)")
     (auto simp: id_in_def intro!: next_symbol_less split: option.splits)

declare skip_symbols.simps [simp del]

text \<open>The list \<open>stopping_symbol\<close> of \<open>Parser.error\<close>, and how many symbols the loop skips.\<close>

definition stopping_symbol :: "'w collab \<Rightarrow> error_code \<Rightarrow> string option \<Rightarrow> ident list" where
  "stopping_symbol c error_type vararg = EOF # snd (error_case c error_type vararg)"

function skip_count :: "ident list \<Rightarrow> 'w parser \<Rightarrow> nat" where
  "skip_count stopping p =
     (if \<not> id_in (sym_id (symbol p)) (EOF # stopping)
      then Suc (skip_count stopping (next_symbol p))
      else 0)"
  by pat_completeness auto
termination
  by (relation "measure (\<lambda>(stopping, p). pweight p)")
     (auto simp: id_in_def intro!: next_symbol_less split: option.splits)

declare skip_count.simps [simp del]

text \<open>
  \<open>Parser.error\<close>: the value returned is \<open>stop\<close>, the identifier at which the skipping
  ended, or \<open>None\<close> when nothing was skipped.
\<close>

definition error ::
  "'w collab \<Rightarrow> error_code \<Rightarrow> bool \<Rightarrow> string option \<Rightarrow> 'w parser \<Rightarrow> ident option \<times> 'w parser" where
  "error c error_type advance_symbol vararg p =
     (let p1 = p\<lparr>error_count := error_count p + 1\<rparr>;
          error_message = ''***Error: '' @ fst (error_case c error_type vararg);
          stopping = snd (error_case c error_type vararg);
          l = linenum (symbol p1);
          cl = colnum (symbol p1)
      in if advance_symbol
         then (let p2 = skip_symbols stopping p1;
                   stop = sym_id (symbol p2)
               in if sym_id (symbol p2) \<noteq> Some EOF
                  then (let p3 = next_symbol p2;
                            msg = error_message @ '' Parsing resumed on line ''
                                    @ str (linenum (symbol p3)) @ ''.''
                        in (stop, p3\<lparr>error_messages :=
                                       error_messages p3 @ [(msg @ ''***'' @ newline, l, cl)]\<rparr>))
                  else (stop, p2\<lparr>reached_eof := True,
                                 error_messages :=
                                   error_messages p2
                                     @ [(error_message @ ''***'' @ newline, l, cl)]\<rparr>))
         else (None, p1\<lparr>error_messages :=
                          error_messages p1 @ [(error_message @ ''***'' @ newline, l, cl)]\<rparr>))"

text \<open>A call of \<open>self.error\<close> whose result is dropped.\<close>

definition err :: "'w collab \<Rightarrow> error_code \<Rightarrow> bool \<Rightarrow> string option \<Rightarrow> 'w parser \<Rightarrow> 'w parser" where
  "err c error_type advance_symbol vararg p = snd (error c error_type advance_symbol vararg p)"

definition check_keyword :: "'w collab \<Rightarrow> ident \<Rightarrow> 'w parser \<Rightarrow> bool \<times> 'w parser" where
  "check_keyword c keyword p =
     (if sym_id (symbol p) = Some keyword
      then (let p1 = next_symbol p
            in if sym_type (symbol p1) = Some CL
               then (True, next_symbol p1)
               else (False, err c SYNTAX_COLON True None p1))
      else (False, err c KEYWORD_ERROR True (Some keyword) p))"

definition check_end :: "'w collab \<Rightarrow> bool \<Rightarrow> 'w parser \<Rightarrow> 'w parser" where
  "check_end c error_recovery p =
     (if sym_id (symbol p) = Some END
      then next_symbol p
      else err c END_ERROR error_recovery None p)"

definition check_valid_name :: "'w collab \<Rightarrow> ident option \<Rightarrow> 'w parser \<Rightarrow> bool" where
  "check_valid_name c i p = (get_device c (world p) i = None)"

text \<open>
  \<open>get_property\<close>. A symbol of type \<open>NUMBER\<close> carries its digit string; with no
  identifier at all there is no string to convert, and the result is \<open>None\<close>.
\<close>

definition get_property :: "'w collab \<Rightarrow> ident option \<Rightarrow> 'w parser \<Rightarrow> property option" where
  "get_property c ty p =
     (let property = sym_id (symbol p)
      in if ty = Some (SWITCH c) \<and> id_in property initial_states
         then (if property = Some OFF then Some (LOW c) else Some (HIGH c))
         else if sym_type (symbol p) = Some NUMBER
         then (case property of
                 None \<Rightarrow> None
               | Some prop \<Rightarrow>
                   if ty = Some (SIGGEN c) then Some (PStr prop)
                   else Some (PInt (int_of_string prop)))
         else None)"

definition get_io ::
  "'w collab \<Rightarrow> io \<Rightarrow> 'w parser \<Rightarrow> (ident option \<times> ident option) \<times> 'w parser" where
  "get_io c io p =
     (let i = sym_id (symbol p)
      in case get_device c (world p) i of
           None \<Rightarrow> ((None, None), err c NO_DEVICE True None p)
         | Some device_kind \<Rightarrow>
             (let expect_identifier = (io = INPUT \<or> device_kind = D_TYPE c);
                  p1 = next_symbol p
              in if sym_type (symbol p1) = Some PE
                 then (if expect_identifier
                       then (let p2 = next_symbol p1
                             in if sym_type (symbol p2) = Some NAMES
                                then ((i, sym_id (symbol p2)), next_symbol p2)
                                else ((None, None), err c NO_IDENTIFIER True None p2))
                       else ((None, None), err c IDENTIFIER_PRESENT True None p1))
                 else if expect_identifier
                 then ((None, None), err c SYNTAX True (Some PERIOD) p1)
                 else ((i, None), p1)))"

definition check_io :: "'w collab \<Rightarrow> io \<Rightarrow> 'w parser \<Rightarrow> bool \<times> 'w parser" where
  "check_io c io p =
     (let p1 = next_symbol p
      in if sym_type (symbol p1) = Some PE
         then (let p2 = next_symbol p1
               in if sym_type (symbol p2) = Some NAMES
                  then (True, next_symbol p2)
                  else (False, err c NO_IDENTIFIER True None p2))
         else (True, p1))"

text \<open>
  The item methods. Each returns what the Python method returns, \<open>Some True\<close>,
  \<open>Some False\<close> or \<open>None\<close> (a bare \<open>return\<close> or the end of the body), and the new state.
\<close>

definition device :: "'w collab \<Rightarrow> 'w parser \<Rightarrow> bool option \<times> 'w parser" where
  "device c p =
     (let ty = sym_id (symbol p)
      in if \<not> id_in ty device_keywords
         then (Some False, err c NO_DEVICE True None p)
         else (let p1 = next_symbol p
               in if sym_type (symbol p1) = Some NAMES
                  then (let i = sym_id (symbol p1)
                        in if \<not> check_valid_name c i p1
                           then (Some False, err c NOT_VALID_NAME True None p1)
                           else (let p2 = next_symbol p1;
                                     has_property = (sym_type (symbol p2) = Some PROPERTY \<or>
                                                     sym_type (symbol p2) = Some NUMBER);
                                     property = (if has_property then get_property c ty p2
                                                 else None);
                                     p3 = (if has_property then next_symbol p2 else p2)
                                 in case make_device c (world p3) i ty property of
                                      (error_type, w) \<Rightarrow>
                                        (let p4 = p3\<lparr>world := w\<rparr>
                                         in if error_type \<noteq> DEVICES_NO_ERROR
                                            then (Some False, err c error_type True ty p4)
                                            else if sym_type (symbol p4) = Some SCL
                                            then (Some True, next_symbol p4)
                                            else (Some False,
                                                  err c SYNTAX True (Some SEMI_COLON) p4))))
                  else (Some False, err c BAD_NAME True None p1)))"

definition connect :: "'w collab \<Rightarrow> 'w parser \<Rightarrow> bool option \<times> 'w parser" where
  "connect c p =
     (case get_io c OUTPUT p of
        ((output_id, output_port_id), p1) \<Rightarrow>
          if (output_id, output_port_id) = (None, None) then (Some False, p1)
          else if sym_type (symbol p1) = Some AR
          then (let p2 = next_symbol p1
                in if sym_type (symbol p2) = Some NAMES
                   then (case get_io c INPUT p2 of
                           ((input_id, input_port_id), p3) \<Rightarrow>
                             if (input_id, input_port_id) = (None, None) then (Some False, p3)
                             else (case make_connection c (world p3) input_id input_port_id
                                          output_id output_port_id of
                                     (error_type, w) \<Rightarrow>
                                       (let p4 = p3\<lparr>world := w\<rparr>
                                        in if error_type \<noteq> NETWORK_NO_ERROR
                                           then (Some False, err c error_type True None p4)
                                           else if sym_type (symbol p4) = Some SCL
                                           then (Some True, next_symbol p4)
                                           else (Some False,
                                                 err c SYNTAX True (Some SEMI_COLON) p4))))
                   else (Some False, err c SYMBOL_TYPE_ERROR True (Some ''NAME'') p2))
          else (Some False, err c SYNTAX True (Some ARROW) p1))"

definition connect_syntax :: "'w collab \<Rightarrow> 'w parser \<Rightarrow> bool option \<times> 'w parser" where
  "connect_syntax c p =
     (case check_io c OUTPUT p of
        (ok, p1) \<Rightarrow>
          if \<not> ok then (None, p1)
          else if sym_type (symbol p1) = Some AR
          then (let p2 = next_symbol p1
                in if sym_type (symbol p2) = Some NAMES
                   then (case check_io c INPUT p2 of
                           (ok2, p3) \<Rightarrow>
                             if \<not> ok2 then (None, p3)
                             else if sym_type (symbol p3) = Some SCL
                             then (None, next_symbol p3)
                             else (None, err c SYNTAX True (Some SEMI_COLON) p3))
                   else (None, err c SYMBOL_TYPE_ERROR True (Some ''NAME'') p2))
          else (None, err c SYNTAX True (Some ARROW) p1))"

definition monitor :: "'w collab \<Rightarrow> 'w parser \<Rightarrow> bool option \<times> 'w parser" where
  "monitor c p =
     (case get_io c OUTPUT p of
        ((output_id, output_port_id), p1) \<Rightarrow>
          if (output_id, output_port_id) = (None, None) then (None, p1)
          else (case make_monitor c (world p1) output_id output_port_id of
                  (error_type, w) \<Rightarrow>
                    (let p2 = p1\<lparr>world := w\<rparr>
                     in if error_type \<noteq> MONITORS_NO_ERROR
                        then (None, err c error_type True None p2)
                        else if sym_type (symbol p2) = Some SCL
                        then (None, next_symbol p2)
                        else (None, err c SYNTAX True (Some SEMI_COLON) p2))))"

definition monitor_syntax :: "'w collab \<Rightarrow> 'w parser \<Rightarrow> bool option \<times> 'w parser" where
  "monitor_syntax c p =
     (case check_io c OUTPUT p of
        (ok, p1) \<Rightarrow>
          if \<not> ok then (None, p1)
          else if sym_type (symbol p1) = Some SCL
          then (None, next_symbol p1)
          else (None, err c SYNTAX True (Some SEMI_COLON) p1))"

text \<open>
  The bound method that \<open>build_list\<close> and \<open>check_syntax\<close> receive as \<open>method\<close> is one of
  five; the argument is its name.
\<close>

datatype item_method = Device | Connect | Connect_syntax | Monitor | Monitor_syntax

definition call_method :: "'w collab \<Rightarrow> item_method \<Rightarrow> 'w parser \<Rightarrow> bool option \<times> 'w parser" where
  "call_method c m p =
     (case m of
        Device \<Rightarrow> device c p
      | Connect \<Rightarrow> connect c p
      | Connect_syntax \<Rightarrow> connect_syntax c p
      | Monitor \<Rightarrow> monitor c p
      | Monitor_syntax \<Rightarrow> monitor_syntax c p)"

text \<open>
  Termination of the item loops: \<open>below p n\<close> holds of a state from which the next
  symbol read, or the next recovery, brings the measure strictly under \<open>n\<close>.
\<close>

lemma pweight_updates [simp]:
  "pweight (p\<lparr>world := w\<rparr>) = pweight p"
  "pweight (p\<lparr>error_count := n\<rparr>) = pweight p"
  "pweight (p\<lparr>error_messages := ms\<rparr>) = pweight p"
  "pweight (p\<lparr>missing_end := b\<rparr>) = pweight p"
  "pweight (p\<lparr>reached_eof := b\<rparr>) = pweight p"
  by (simp_all add: pweight_def)

lemma skip_symbols_pweight: "pweight (skip_symbols st p) \<le> pweight p"
proof (induction st p rule: skip_symbols.induct)
  case (1 st p)
  show ?case
  proof (cases "id_in (sym_id (symbol p)) (EOF # st)")
    case True
    then show ?thesis by (simp add: skip_symbols.simps [of st p])
  next
    case False
    then have "pweight (skip_symbols st (next_symbol p)) \<le> pweight (next_symbol p)"
      by (intro "1.IH")
    with False next_symbol_le [of p] show ?thesis
      by (simp add: skip_symbols.simps [of st p])
  qed
qed

lemma skip_symbols_stops: "id_in (sym_id (symbol (skip_symbols st p))) (EOF # st)"
proof (induction st p rule: skip_symbols.induct)
  case (1 st p)
  show ?case
  proof (cases "id_in (sym_id (symbol p)) (EOF # st)")
    case True
    then show ?thesis by (simp add: skip_symbols.simps [of st p])
  next
    case False
    then have "id_in (sym_id (symbol (skip_symbols st (next_symbol p)))) (EOF # st)"
      by (intro "1.IH")
    with False show ?thesis
      by (simp add: skip_symbols.simps [of st p])
  qed
qed

lemma skip_symbols_stop_here:
  "id_in (sym_id (symbol p)) (EOF # st) \<Longrightarrow> skip_symbols st p = p"
  by (simp add: skip_symbols.simps [of st p])

lemma skip_symbols_go_on:
  "\<not> id_in (sym_id (symbol p)) (EOF # st) \<Longrightarrow>
     skip_symbols st p = skip_symbols st (next_symbol p)"
  by (simp add: skip_symbols.simps [of st p])

definition below :: "'w parser \<Rightarrow> nat \<Rightarrow> bool" where
  "below p n = (pweight p < n \<or> (pweight p \<le> n \<and> sym_id (symbol p) \<noteq> Some EOF))"

lemma below_start: "sym_id (symbol p) \<noteq> Some EOF \<Longrightarrow> below p (pweight p)"
  by (simp add: below_def)

lemma below_updates [simp]:
  "below (p\<lparr>world := w\<rparr>) n = below p n"
  "below (p\<lparr>error_count := k\<rparr>) n = below p n"
  "below (p\<lparr>error_messages := ms\<rparr>) n = below p n"
  "below (p\<lparr>missing_end := b\<rparr>) n = below p n"
  "below (p\<lparr>reached_eof := b\<rparr>) n = below p n"
  by (simp_all add: below_def pweight_def)

lemma next_symbol_below: "below p n \<Longrightarrow> pweight (next_symbol p) < n"
  using next_symbol_pweight [of p] by (auto simp: below_def)

lemma skip_symbols_below: "below p n \<Longrightarrow> below (skip_symbols st p) n"
proof (induction st p rule: skip_symbols.induct)
  case (1 st p)
  show ?case
  proof (cases "id_in (sym_id (symbol p)) (EOF # st)")
    case True
    with "1.prems" show ?thesis by (simp add: skip_symbols_stop_here)
  next
    case False
    have "below (next_symbol p) n"
      using next_symbol_below [OF "1.prems"] by (simp add: below_def)
    with False have "below (skip_symbols st (next_symbol p)) n"
      by (intro "1.IH")
    with False show ?thesis by (simp add: skip_symbols_go_on)
  qed
qed

lemma skip_symbols_eof_below:
  assumes "below p n" and "sym_id (symbol (skip_symbols st p)) = Some EOF"
  shows "pweight (skip_symbols st p) < n"
proof (cases "sym_id (symbol p) = Some EOF")
  case True
  then have "skip_symbols st p = p" by (simp add: skip_symbols_stop_here id_in_def)
  with assms True show ?thesis by (simp add: below_def)
next
  case False
  from skip_symbols_below [OF assms(1), of st] assms(2) show ?thesis
    by (simp add: below_def)
qed

lemma err_advance_below:
  assumes "below p n"
  shows "pweight (err c e True v p) < n"
proof -
  define p1 where "p1 = p\<lparr>error_count := error_count p + 1\<rparr>"
  define p2 where "p2 = skip_symbols (snd (error_case c e v)) p1"
  have b1: "below p1 n" using assms by (simp add: p1_def)
  have b2: "below p2 n" unfolding p2_def by (rule skip_symbols_below [OF b1])
  show ?thesis
  proof (cases "sym_id (symbol p2) = Some EOF")
    case True
    then have "pweight (err c e True v p) = pweight p2"
      by (simp add: err_def error_def Let_def p1_def p2_def)
    moreover have "pweight p2 < n"
      using skip_symbols_eof_below [OF b1] True by (simp add: p2_def)
    ultimately show ?thesis by simp
  next
    case False
    then have "pweight (err c e True v p) = pweight (next_symbol p2)"
      by (simp add: err_def error_def Let_def p1_def p2_def)
    with next_symbol_below [OF b2] show ?thesis by simp
  qed
qed

lemma err_below: "below p n \<Longrightarrow> below (err c e a v p) n"
proof (cases a)
  case True
  assume "below p n"
  from err_advance_below [OF this] True show ?thesis by (simp add: below_def)
next
  case False
  assume "below p n"
  with False show ?thesis by (simp add: err_def error_def Let_def below_def pweight_def)
qed

lemma below_next: "below p n \<Longrightarrow> below (next_symbol p) n"
  using next_symbol_below [of p n] by (simp add: below_def)

lemmas below_intros = below_start err_below below_next next_symbol_below err_advance_below

lemma check_io_below:
  "below p n \<Longrightarrow> pweight (snd (check_io c io p)) < n"
  by (auto simp: check_io_def Let_def intro!: below_intros)

lemma get_io_below:
  "below p n \<Longrightarrow> pweight (snd (get_io c io p)) < n"
  by (auto simp: get_io_def Let_def split: option.splits intro!: below_intros)

lemma below_less: "pweight p < n \<Longrightarrow> below p n"
  by (simp add: below_def)

lemma device_below:
  "below p n \<Longrightarrow> pweight (snd (device c p)) < n"
  by (auto simp: device_def Let_def split_beta intro!: below_intros)

lemma connect_below:
  "below p n \<Longrightarrow> pweight (snd (connect c p)) < n"
  by (auto simp: connect_def Let_def split_beta
      intro!: below_intros get_io_below below_less [OF get_io_below])

lemma connect_syntax_below:
  "below p n \<Longrightarrow> pweight (snd (connect_syntax c p)) < n"
  by (auto simp: connect_syntax_def Let_def split_beta
      intro!: below_intros check_io_below below_less [OF check_io_below])

lemma monitor_below:
  "below p n \<Longrightarrow> pweight (snd (monitor c p)) < n"
  by (auto simp: monitor_def Let_def split_beta
      intro!: below_intros get_io_below below_less [OF get_io_below])

lemma monitor_syntax_below:
  "below p n \<Longrightarrow> pweight (snd (monitor_syntax c p)) < n"
  by (auto simp: monitor_syntax_def Let_def split_beta
      intro!: below_intros check_io_below below_less [OF check_io_below])

lemma call_method_below:
  "below p n \<Longrightarrow> pweight (snd (call_method c m p)) < n"
  by (cases m)
     (simp_all add: call_method_def device_below connect_below connect_syntax_below
        monitor_below monitor_syntax_below)

text \<open>
  The loop of \<open>build_list\<close>, with the local variable \<open>success\<close> as an argument. A method's
  result counts as a failure unless it is \<open>True\<close> (\<open>if not method()\<close>).
\<close>

function build_loop ::
  "'w collab \<Rightarrow> symtype \<Rightarrow> item_method \<Rightarrow> bool \<Rightarrow> 'w parser \<Rightarrow> bool \<times> 'w parser" where
  "build_loop c expected_type m success p =
     (if sym_id (symbol p) \<noteq> Some END \<and> sym_id (symbol p) \<noteq> Some EOF
      then (if sym_type (symbol p) = Some expected_type
            then build_loop c expected_type m
                   (if fst (call_method c m p) \<noteq> Some True then False else success)
                   (snd (call_method c m p))
            else if sym_type (symbol p) = Some KEYWORDS \<or> sym_type (symbol p) = Some CL
            then (False, (err c END_ERROR False None p)\<lparr>missing_end := True\<rparr>)
            else build_loop c expected_type m False
                   (err c SYMBOL_TYPE_ERROR True (Some (symbol_types expected_type)) p))
      else (success, p))"
  by pat_completeness auto
termination
  by (relation "measure (\<lambda>(c, expected_type, m, success, p). pweight p)")
     (auto intro!: call_method_below err_advance_below below_start)

declare build_loop.simps [simp del]

definition build_list :: "'w collab \<Rightarrow> symtype \<Rightarrow> item_method \<Rightarrow> 'w parser \<Rightarrow> bool \<times> 'w parser" where
  "build_list c expected_type m p = build_loop c expected_type m True p"

function check_syntax :: "'w collab \<Rightarrow> symtype \<Rightarrow> item_method \<Rightarrow> 'w parser \<Rightarrow> 'w parser" where
  "check_syntax c expected_type m p =
     (if sym_id (symbol p) \<noteq> Some END \<and> sym_id (symbol p) \<noteq> Some EOF
      then (if sym_type (symbol p) = Some expected_type
            then check_syntax c expected_type m (snd (call_method c m p))
            else if sym_type (symbol p) = Some KEYWORDS \<or> sym_type (symbol p) = Some CL
            then (err c END_ERROR False None p)\<lparr>missing_end := True\<rparr>
            else check_syntax c expected_type m
                   (err c SYMBOL_TYPE_ERROR True (Some (symbol_types expected_type)) p))
      else p)"
  by pat_completeness auto
termination
  by (relation "measure (\<lambda>(c, expected_type, m, p). pweight p)")
     (auto intro!: call_method_below err_advance_below below_start)

declare check_syntax.simps [simp del]

text \<open>
  The three sections. \<open>devicelist\<close> and \<open>connectionlist\<close> return \<open>True\<close>, \<open>False\<close> or
  nothing; \<open>monitorlist\<close> returns nothing on every path.
\<close>

definition devicelist :: "'w collab \<Rightarrow> 'w parser \<Rightarrow> bool option \<times> 'w parser" where
  "devicelist c p =
     (if reached_eof p then (None, p)
      else (case check_keyword c DEVICE_LIST p of
              (ok, p1) \<Rightarrow>
                if \<not> ok then (Some False, p1)
                else (case build_list c DEVICETYPE Device p1 of
                        (built, p2) \<Rightarrow>
                          if \<not> built
                          then (if \<not> missing_end p2 then (Some False, check_end c True p2)
                                else (Some False, p2\<lparr>missing_end := False\<rparr>))
                          else (Some True, check_end c True p2))))"

definition connectionlist :: "'w collab \<Rightarrow> bool \<Rightarrow> 'w parser \<Rightarrow> bool option \<times> 'w parser" where
  "connectionlist c semantic_checks p =
     (if reached_eof p then (Some True, p)
      else (case check_keyword c CONNECTION_LIST p of
              (ok, p1) \<Rightarrow>
                if \<not> ok then (Some False, p1)
                else if semantic_checks
                then (case build_list c NAMES Connect p1 of
                        (built, p2) \<Rightarrow>
                          if \<not> built
                          then (if \<not> missing_end p2 then (Some False, check_end c True p2)
                                else (Some False, p2\<lparr>missing_end := False\<rparr>))
                          else if \<not> check_network c (world p2)
                          then (Some False,
                                check_end c True (err c UNCONNECTED_INPUTS False None p2))
                          else (Some True, check_end c True p2))
                else (let p2 = check_syntax c NAMES Connect_syntax p1
                      in if missing_end p2 then (None, p2\<lparr>missing_end := False\<rparr>)
                         else (Some True, check_end c True p2))))"

definition monitorlist :: "'w collab \<Rightarrow> bool \<Rightarrow> 'w parser \<Rightarrow> 'w parser" where
  "monitorlist c semantic_checks p =
     (if reached_eof p then p
      else (case check_keyword c MONITOR_LIST p of
              (ok, p1) \<Rightarrow>
                if \<not> ok then p1
                else (let p2 = (if semantic_checks
                                then (let q = snd (build_list c NAMES Monitor p1)
                                      in if monitors_dictionary_empty c (world q)
                                         then err c NO_MONITOR False None q
                                         else q)
                                else check_syntax c NAMES Monitor_syntax p1);
                          p3 = check_end c False p2
                      in if sym_id (symbol p3) \<noteq> Some EOF
                         then err c NO_EOF False None p3
                         else p3)))"

text \<open>\<open>Scanner.print_line\<close>: the lines of the file keep their newline.\<close>

fun file_lines :: "string \<Rightarrow> string \<Rightarrow> string list" where
  "file_lines cur [] = (if cur = [] then [] else [cur])"
| "file_lines cur (x # xs) =
     (if x = CHR 0x0A then (cur @ [x]) # file_lines [] xs else file_lines (cur @ [x]) xs)"

definition print_line :: "scanner \<Rightarrow> nat \<Rightarrow> nat \<Rightarrow> string" where
  "print_line s linnum coln =
     (let ls = file_lines [] (file_text s)
      in if 1 \<le> linnum \<and> linnum \<le> length ls
         then (let line = ls ! (linnum - 1);
                   linesize = length line
               in if coln < 37 \<or> linesize < 73
                  then line @ replicate (coln - 1) CHR '' '' @ ''^''
                  else if coln + 37 > linesize
                  then ''...'' @ drop (linesize - 73) line
                         @ replicate (coln + 75 - linesize) CHR '' '' @ ''^''
                  else ''...'' @ take 73 (drop (coln - 36) line) @ ''...'' @ newline
                         @ replicate 38 CHR '' '' @ ''^'')
         else newline @ ''^'')"

text \<open>
  \<open>error_report\<close>: what is printed, one string for each accumulated entry, in the order
  of the list.
\<close>

definition report_entry :: "scanner \<Rightarrow> string \<times> nat \<times> nat \<Rightarrow> string" where
  "report_entry s i =
     (case i of
        (msg, l, cl) \<Rightarrow>
          ''---------'' @ newline @ ''In line '' @ str l @ '':'' @ newline
            @ print_line s l cl @ newline @ msg @ ''---------'' @ newline)"

definition error_report :: "'w parser \<Rightarrow> string list" where
  "error_report p = map (report_entry (scanner p)) (error_messages p)"

text \<open>
  The three section calls of \<open>parse_network\<close>, after the first symbol is read; a section
  result that is not \<open>True\<close> sends the rest of the file to the syntax-only methods.
\<close>

definition parse_sections :: "'w collab \<Rightarrow> 'w parser \<Rightarrow> 'w parser" where
  "parse_sections c p =
     (case devicelist c (next_symbol p) of
        (devices_ok, p1) \<Rightarrow>
          if devices_ok \<noteq> Some True
          then monitorlist c False (snd (connectionlist c False p1))
          else (case connectionlist c True p1 of
                  (connections_ok, p2) \<Rightarrow>
                    if connections_ok \<noteq> Some True
                    then monitorlist c False p2
                    else monitorlist c True p2))"

text \<open>
  \<open>parse_network\<close>: the value returned, the error report printed (nothing is reported on
  success) and the final state.
\<close>

definition parse_network :: "'w collab \<Rightarrow> 'w parser \<Rightarrow> bool \<times> string list \<times> 'w parser" where
  "parse_network c p =
     (let p' = parse_sections c p
      in if sym_id (symbol p') = Some EOF \<and> error_count p' = 0
         then (True, [], p')
         else (False, error_report p', p'))"

section \<open>A reference device model\<close>

text \<open>
  Modelled from the spec: the Device Model, the Connection Graph and the Signal-Trace
  Recorder (devices.py, network.py, monitors.py), as far as parsing uses them. A device
  has an identifier, a kind, its input pins, each with the output that drives it if any,
  and its output pins. A D_TYPE has the inputs DATA, CLK, SET, CLEAR and the outputs Q,
  QBAR; a gate has one input for each ordinal up to its input count, named \<open>I1\<close>,
  \<open>I2\<close>, ... so that a pin is a name of the definition language, and one unnamed
  output; CLOCK, SWITCH and SIGGEN have one unnamed output and no input. The device kinds
  are the identifiers of the device-type keywords, since the parser passes the keyword it
  read as the kind. The theorems about the parser hold for every collaborator; this one
  is used where a concrete run is evaluated.
\<close>

record device_rec =
  device_id :: ident
  device_kind :: ident
  inputs :: "(ident \<times> (ident \<times> ident option) option) list"
  outputs :: "ident option list"

record sim =
  devices_list :: "device_rec list"
  monitors_dictionary :: "(ident \<times> ident option) list"

definition sim_empty :: sim where
  "sim_empty = \<lparr>devices_list = [], monitors_dictionary = []\<rparr>"

definition find_device :: "sim \<Rightarrow> ident option \<Rightarrow> device_rec option" where
  "find_device w i =
     (case i of None \<Rightarrow> None | Some x \<Rightarrow> find (\<lambda>d. device_id d = x) (devices_list w))"

definition sim_get_device :: "sim \<Rightarrow> ident option \<Rightarrow> ident option" where
  "sim_get_device w i = map_option device_kind (find_device w i)"

definition gate_kinds :: "ident list" where
  "gate_kinds = [''AND'', ''OR'', ''NAND'', ''NOR'', ''XOR'']"

definition gate_inputs :: "nat \<Rightarrow> (ident \<times> (ident \<times> ident option) option) list" where
  "gate_inputs n = map (\<lambda>k. (''I'' @ str k, None)) [1..<Suc n]"

definition add_device ::
  "sim \<Rightarrow> ident \<Rightarrow> ident \<Rightarrow> (ident \<times> (ident \<times> ident option) option) list
     \<Rightarrow> ident option list \<Rightarrow> error_code \<times> sim" where
  "add_device w i kind ins outs =
     (DEVICES_NO_ERROR,
      w\<lparr>devices_list := devices_list w
           @ [\<lparr>device_id = i, device_kind = kind, inputs = ins, outputs = outs\<rparr>]\<rparr>)"

text \<open>
  \<open>declare\<close>: a duplicate name, a missing, an invalid or an unexpected configuration
  are the four failures; anything that is not a device kind is a bad device.
\<close>

definition sim_make_device ::
  "sim \<Rightarrow> ident option \<Rightarrow> ident option \<Rightarrow> property option \<Rightarrow> error_code \<times> sim" where
  "sim_make_device w i kind property =
     (case (i, kind) of
        (Some x, Some k) \<Rightarrow>
          if find_device w i \<noteq> None then (DEVICE_PRESENT, w)
          else if k = ''SWITCH''
          then (case property of
                  None \<Rightarrow> (NO_QUALIFIER, w)
                | Some v \<Rightarrow>
                    if v = PInt 0 \<or> v = PInt 1 then add_device w x k [] [None]
                    else (INVALID_QUALIFIER, w))
          else if k = ''CLOCK''
          then (case property of
                  None \<Rightarrow> (NO_QUALIFIER, w)
                | Some (PInt n) \<Rightarrow>
                    if 0 < n then add_device w x k [] [None] else (INVALID_QUALIFIER, w)
                | Some (PStr u) \<Rightarrow> (INVALID_QUALIFIER, w))
          else if k = ''SIGGEN''
          then (case property of
                  None \<Rightarrow> (NO_QUALIFIER, w)
                | Some (PStr u) \<Rightarrow>
                    if u \<noteq> [] \<and> set u \<subseteq> set ''01'' then add_device w x k [] [None]
                    else (INVALID_QUALIFIER, w)
                | Some (PInt n) \<Rightarrow> (INVALID_QUALIFIER, w))
          else if k = ''XOR''
          then (case property of
                  None \<Rightarrow> add_device w x k (gate_inputs 2) [None]
                | Some v \<Rightarrow> (QUALIFIER_PRESENT, w))
          else if k \<in> set gate_kinds
          then (case property of
                  None \<Rightarrow> (NO_QUALIFIER, w)
                | Some (PInt n) \<Rightarrow>
                    if 1 \<le> n \<and> n \<le> 16 then add_device w x k (gate_inputs (nat n)) [None]
                    else (INVALID_QUALIFIER, w)
                | Some (PStr u) \<Rightarrow> (INVALID_QUALIFIER, w))
          else if k = ''DTYPE''
          then (case property of
                  None \<Rightarrow>
                    add_device w x k
                      [(''CLK'', None), (''SET'', None), (''CLEAR'', None), (''DATA'', None)]
                      [Some ''Q'', Some ''QBAR'']
                | Some v \<Rightarrow> (QUALIFIER_PRESENT, w))
          else (BAD_DEVICE, w)
      | _ \<Rightarrow> (BAD_DEVICE, w))"

definition is_input :: "device_rec \<Rightarrow> ident option \<Rightarrow> bool" where
  "is_input d port = (case port of None \<Rightarrow> False | Some x \<Rightarrow> x \<in> set (map fst (inputs d)))"

definition is_output :: "device_rec \<Rightarrow> ident option \<Rightarrow> bool" where
  "is_output d port = (port \<in> set (outputs d))"

definition drive ::
  "ident \<Rightarrow> ident \<times> ident option \<Rightarrow> (ident \<times> (ident \<times> ident option) option) list
     \<Rightarrow> (ident \<times> (ident \<times> ident option) option) list" where
  "drive pin src ins = map (\<lambda>(n, v). if n = pin then (n, Some src) else (n, v)) ins"

text \<open>
  \<open>connect\<close>: both devices must exist, the first reference must be an input that is not
  driven yet, the second an output.
\<close>

definition sim_make_connection ::
  "sim \<Rightarrow> ident option \<Rightarrow> ident option \<Rightarrow> ident option \<Rightarrow> ident option \<Rightarrow> error_code \<times> sim" where
  "sim_make_connection w input_id input_port output_id output_port =
     (case (find_device w input_id, find_device w output_id) of
        (Some di, Some dout) \<Rightarrow>
          (case input_port of
             None \<Rightarrow> if is_output di None then (OUTPUT_TO_OUTPUT, w) else (PORT_ABSENT, w)
           | Some pin \<Rightarrow>
               if is_input di input_port
               then (if map_of (inputs di) pin \<noteq> Some None then (INPUT_CONNECTED, w)
                     else if is_input dout output_port then (INPUT_TO_INPUT, w)
                     else if is_output dout output_port
                     then (NETWORK_NO_ERROR,
                           w\<lparr>devices_list :=
                               map (\<lambda>d. if device_id d = device_id di
                                         then d\<lparr>inputs := drive pin (device_id dout, output_port)
                                                              (inputs d)\<rparr>
                                         else d)
                                   (devices_list w)\<rparr>)
                     else (PORT_ABSENT, w))
               else if is_output di input_port then (OUTPUT_TO_OUTPUT, w)
               else (PORT_ABSENT, w))
      | _ \<Rightarrow> (DEVICE_ABSENT, w))"

text \<open>\<open>validate_fully_wired\<close>: every input of every device has a driving connection.\<close>

definition sim_check_network :: "sim \<Rightarrow> bool" where
  "sim_check_network w = list_all (\<lambda>d. list_all (\<lambda>(n, v). v \<noteq> None) (inputs d)) (devices_list w)"

definition sim_make_monitor :: "sim \<Rightarrow> ident option \<Rightarrow> ident option \<Rightarrow> error_code \<times> sim" where
  "sim_make_monitor w i port =
     (case find_device w i of
        None \<Rightarrow> (NOT_OUTPUT, w)
      | Some d \<Rightarrow>
          if \<not> is_output d port then (NOT_OUTPUT, w)
          else if (device_id d, port) \<in> set (monitors_dictionary w) then (MONITOR_PRESENT, w)
          else (MONITORS_NO_ERROR,
                w\<lparr>monitors_dictionary := monitors_dictionary w @ [(device_id d, port)]\<rparr>))"

definition sim_collab :: "sim collab" where
  "sim_collab = \<lparr>get_device = sim_get_device, make_device = sim_make_device,
     make_connection = sim_make_connection, check_network = sim_check_network,
     make_monitor = sim_make_monitor,
     monitors_dictionary_empty = (\<lambda>w. monitors_dictionary w = []),
     D_TYPE = ''DTYPE'', SWITCH = ''SWITCH'', CLOCK = ''CLOCK'', SIGGEN = ''SIGGEN'',
     XOR = ''XOR'', gate_types = gate_kinds, LOW = PInt 0, HIGH = PInt 1\<rparr>"

text \<open>A file of the given lines, each ended by a newline.\<close>

definition file_of :: "string list \<Rightarrow> string" where
  "file_of ls = concat (map (\<lambda>l. l @ newline) ls)"

text \<open>The example program of the definition language, with the pins as it prints them.\<close>

definition example_program :: string where
  "example_program = file_of
     [''DEVICE_LIST:'', ''SWITCH sw1 OFF;'', ''AND g1 2;'', ''END'',
      ''CONNECTION_LIST:'', ''sw1 -> g1.1;'', ''sw1 -> g1.2;'', ''END'',
      ''MONITOR_LIST:'', ''g1;'', ''END'']"

text \<open>The same program with the two input pins written as names.\<close>

definition example_named_pins :: string where
  "example_named_pins = file_of
     [''DEVICE_LIST:'', ''SWITCH sw1 OFF;'', ''AND g1 2;'', ''END'',
      ''CONNECTION_LIST:'', ''sw1 -> g1.I1;'', ''sw1 -> g1.I2;'', ''END'',
      ''MONITOR_LIST:'', ''g1;'', ''END'']"

definition parse :: "string \<Rightarrow> bool \<times> string list \<times> sim parser" where
  "parse text = parse_network sim_collab (Parser sim_empty (Scanner text))"

section \<open>What the parser's operations leave unchanged\<close>

lemma next_symbol_frame [simp]:
  "error_count (next_symbol p) = error_count p"
  "error_messages (next_symbol p) = error_messages p"
  "missing_end (next_symbol p) = missing_end p"
  "reached_eof (next_symbol p) = reached_eof p"
  "world (next_symbol p) = world p"
  by (simp_all add: next_symbol_def split_beta)

lemma skip_symbols_frame [simp]:
  "error_count (skip_symbols st p) = error_count p"
  "error_messages (skip_symbols st p) = error_messages p"
  "missing_end (skip_symbols st p) = missing_end p"
  "reached_eof (skip_symbols st p) = reached_eof p"
  "world (skip_symbols st p) = world p"
proof (induction st p rule: skip_symbols.induct)
  case (1 st p)
  {
    case 1
    show ?case
      using "1.IH" by (cases "id_in (sym_id (symbol p)) (EOF # st)")
        (simp_all add: skip_symbols_stop_here skip_symbols_go_on)
  next
    case 2
    show ?case
      using "1.IH" by (cases "id_in (sym_id (symbol p)) (EOF # st)")
        (simp_all add: skip_symbols_stop_here skip_symbols_go_on)
  next
    case 3
    show ?case
      using "1.IH" by (cases "id_in (sym_id (symbol p)) (EOF # st)")
        (simp_all add: skip_symbols_stop_here skip_symbols_go_on)
  next
    case 4
    show ?case
      using "1.IH" by (cases "id_in (sym_id (symbol p)) (EOF # st)")
        (simp_all add: skip_symbols_stop_here skip_symbols_go_on)
  next
    case 5
    show ?case
      using "1.IH" by (cases "id_in (sym_id (symbol p)) (EOF # st)")
        (simp_all add: skip_symbols_stop_here skip_symbols_go_on)
  }
qed

lemma err_frame [simp]:
  "error_count (err c e a v p) = Suc (error_count p)"
  "missing_end (err c e a v p) = missing_end p"
  "world (err c e a v p) = world p"
  by (simp_all add: err_def error_def Let_def)

lemma err_messages:
  "\<exists>msg. error_messages (err c e a v p)
           = error_messages p @ [(msg, linenum (symbol p), colnum (symbol p))]"
  by (simp add: err_def error_def Let_def)

definition counted :: "'w parser \<Rightarrow> bool" where
  "counted p = (error_count p = length (error_messages p))"

lemma counted_updates [simp]:
  "counted (p\<lparr>world := w\<rparr>) = counted p"
  "counted (p\<lparr>missing_end := b\<rparr>) = counted p"
  "counted (p\<lparr>reached_eof := b\<rparr>) = counted p"
  "counted (p\<lparr>symbol := y\<rparr>) = counted p"
  "counted (p\<lparr>scanner := s\<rparr>) = counted p"
  by (simp_all add: counted_def)

lemma counted_next: "counted p \<Longrightarrow> counted (next_symbol p)"
  by (simp add: counted_def)

lemma counted_err: "counted p \<Longrightarrow> counted (err c e a v p)"
  using err_messages [of c e a v p] by (auto simp: counted_def)

lemmas counted_intros = counted_next counted_err

lemma counted_check_keyword: "counted p \<Longrightarrow> counted (snd (check_keyword c k p))"
  by (auto simp: check_keyword_def Let_def intro!: counted_intros)

lemma counted_check_end: "counted p \<Longrightarrow> counted (check_end c r p)"
  by (auto simp: check_end_def intro!: counted_intros)

lemma counted_check_io: "counted p \<Longrightarrow> counted (snd (check_io c io p))"
  by (auto simp: check_io_def Let_def intro!: counted_intros)

lemma counted_get_io: "counted p \<Longrightarrow> counted (snd (get_io c io p))"
  by (auto simp: get_io_def Let_def split: option.splits intro!: counted_intros)

lemma counted_device: "counted p \<Longrightarrow> counted (snd (device c p))"
  by (auto simp: device_def Let_def split_beta intro!: counted_intros)

lemma counted_connect: "counted p \<Longrightarrow> counted (snd (connect c p))"
  by (auto simp: connect_def Let_def split_beta intro!: counted_intros counted_get_io)

lemma counted_connect_syntax: "counted p \<Longrightarrow> counted (snd (connect_syntax c p))"
  by (auto simp: connect_syntax_def Let_def split_beta intro!: counted_intros counted_check_io)

lemma counted_monitor: "counted p \<Longrightarrow> counted (snd (monitor c p))"
  by (auto simp: monitor_def Let_def split_beta intro!: counted_intros counted_get_io)

lemma counted_monitor_syntax: "counted p \<Longrightarrow> counted (snd (monitor_syntax c p))"
  by (auto simp: monitor_syntax_def Let_def split_beta intro!: counted_intros counted_check_io)

lemma counted_call_method: "counted p \<Longrightarrow> counted (snd (call_method c m p))"
  by (cases m)
     (simp_all add: call_method_def counted_device counted_connect counted_connect_syntax
        counted_monitor counted_monitor_syntax)

lemma counted_build_loop: "counted p \<Longrightarrow> counted (snd (build_loop c et m s p))"
proof (induction c et m s p rule: build_loop.induct)
  case (1 c et m s p)
  show ?case
    using 1 by (subst build_loop.simps) (auto simp: counted_intros counted_call_method)
qed

lemma counted_check_syntax: "counted p \<Longrightarrow> counted (check_syntax c et m p)"
proof (induction c et m p rule: check_syntax.induct)
  case (1 c et m p)
  show ?case
    using 1 by (subst check_syntax.simps) (auto simp: counted_intros counted_call_method)
qed

lemma counted_devicelist: "counted p \<Longrightarrow> counted (snd (devicelist c p))"
  by (auto simp: devicelist_def build_list_def split_beta
      intro!: counted_check_end counted_build_loop counted_check_keyword)

lemma counted_connectionlist: "counted p \<Longrightarrow> counted (snd (connectionlist c sc p))"
  by (auto simp: connectionlist_def build_list_def split_beta Let_def
      intro!: counted_check_end counted_build_loop counted_check_keyword counted_check_syntax
        counted_err)

lemma counted_monitorlist: "counted p \<Longrightarrow> counted (monitorlist c sc p)"
  by (auto simp: monitorlist_def build_list_def split_beta Let_def
      intro!: counted_check_end counted_build_loop counted_check_keyword counted_check_syntax
        counted_err)

lemma counted_parse_sections: "counted p \<Longrightarrow> counted (parse_sections c p)"
  by (auto simp: parse_sections_def split_beta
      intro!: counted_monitorlist counted_connectionlist counted_devicelist counted_next)

lemma counted_Parser: "counted (Parser w sc)"
  by (simp add: counted_def Parser_def)

lemma world_check_keyword [simp]: "world (snd (check_keyword c k p)) = world p"
  by (simp add: check_keyword_def Let_def)

lemma world_check_end [simp]: "world (check_end c r p) = world p"
  by (simp add: check_end_def)

lemma world_check_io [simp]: "world (snd (check_io c io p)) = world p"
  by (simp add: check_io_def Let_def)

lemma world_connect_syntax [simp]: "world (snd (connect_syntax c p)) = world p"
  by (simp add: connect_syntax_def Let_def split_beta)

lemma world_monitor_syntax [simp]: "world (snd (monitor_syntax c p)) = world p"
  by (simp add: monitor_syntax_def Let_def split_beta)

definition syntax_only :: "item_method \<Rightarrow> bool" where
  "syntax_only m = (m = Connect_syntax \<or> m = Monitor_syntax)"

lemma check_syntax_done:
  "sym_id (symbol p) = Some END \<or> sym_id (symbol p) = Some EOF \<Longrightarrow>
     check_syntax c et m p = p"
  by (subst check_syntax.simps) auto

lemma check_syntax_item:
  "sym_id (symbol p) \<noteq> Some END \<Longrightarrow> sym_id (symbol p) \<noteq> Some EOF \<Longrightarrow>
   sym_type (symbol p) = Some et \<Longrightarrow>
     check_syntax c et m p = check_syntax c et m (snd (call_method c m p))"
  by (subst check_syntax.simps) simp

lemma check_syntax_missing_end:
  "sym_id (symbol p) \<noteq> Some END \<Longrightarrow> sym_id (symbol p) \<noteq> Some EOF \<Longrightarrow>
   sym_type (symbol p) \<noteq> Some et \<Longrightarrow>
   sym_type (symbol p) = Some KEYWORDS \<or> sym_type (symbol p) = Some CL \<Longrightarrow>
     check_syntax c et m p = (err c END_ERROR False None p)\<lparr>missing_end := True\<rparr>"
  by (subst check_syntax.simps) simp

lemma check_syntax_other:
  "sym_id (symbol p) \<noteq> Some END \<Longrightarrow> sym_id (symbol p) \<noteq> Some EOF \<Longrightarrow>
   sym_type (symbol p) \<noteq> Some et \<Longrightarrow>
   sym_type (symbol p) \<noteq> Some KEYWORDS \<Longrightarrow> sym_type (symbol p) \<noteq> Some CL \<Longrightarrow>
     check_syntax c et m p
       = check_syntax c et m (err c SYMBOL_TYPE_ERROR True (Some (symbol_types et)) p)"
  by (subst check_syntax.simps) simp

lemma build_loop_done:
  "sym_id (symbol p) = Some END \<or> sym_id (symbol p) = Some EOF \<Longrightarrow>
     build_loop c et m s p = (s, p)"
  by (subst build_loop.simps) auto

lemma build_loop_item:
  "sym_id (symbol p) \<noteq> Some END \<Longrightarrow> sym_id (symbol p) \<noteq> Some EOF \<Longrightarrow>
   sym_type (symbol p) = Some et \<Longrightarrow>
     build_loop c et m s p
       = build_loop c et m (if fst (call_method c m p) \<noteq> Some True then False else s)
           (snd (call_method c m p))"
  by (subst build_loop.simps) simp

lemma build_loop_missing_end:
  "sym_id (symbol p) \<noteq> Some END \<Longrightarrow> sym_id (symbol p) \<noteq> Some EOF \<Longrightarrow>
   sym_type (symbol p) \<noteq> Some et \<Longrightarrow>
   sym_type (symbol p) = Some KEYWORDS \<or> sym_type (symbol p) = Some CL \<Longrightarrow>
     build_loop c et m s p = (False, (err c END_ERROR False None p)\<lparr>missing_end := True\<rparr>)"
  by (subst build_loop.simps) simp

lemma build_loop_other:
  "sym_id (symbol p) \<noteq> Some END \<Longrightarrow> sym_id (symbol p) \<noteq> Some EOF \<Longrightarrow>
   sym_type (symbol p) \<noteq> Some et \<Longrightarrow>
   sym_type (symbol p) \<noteq> Some KEYWORDS \<Longrightarrow> sym_type (symbol p) \<noteq> Some CL \<Longrightarrow>
     build_loop c et m s p
       = build_loop c et m False
           (err c SYMBOL_TYPE_ERROR True (Some (symbol_types et)) p)"
  by (subst build_loop.simps) simp

lemma world_check_syntax:
  "syntax_only m \<Longrightarrow> world (check_syntax c et m p) = world p"
proof (induction c et m p rule: check_syntax.induct)
  case (1 c et m p)
  have cm: "world (snd (call_method c m p)) = world p"
    using "1.prems" by (auto simp: syntax_only_def call_method_def)
  show ?case
    using 1 cm by (subst check_syntax.simps) auto
qed

lemma world_connectionlist_syntax: "world (snd (connectionlist c False p)) = world p"
  by (simp add: connectionlist_def Let_def split_beta world_check_syntax syntax_only_def)

lemma world_monitorlist_syntax: "world (monitorlist c False p) = world p"
  by (simp add: monitorlist_def Let_def split_beta world_check_syntax syntax_only_def)

text \<open>A collaborator with other methods and the same constants.\<close>

definition with_methods ::
  "'w collab \<Rightarrow> ('w \<Rightarrow> ident option \<Rightarrow> ident option)
     \<Rightarrow> ('w \<Rightarrow> ident option \<Rightarrow> ident option \<Rightarrow> property option \<Rightarrow> error_code \<times> 'w)
     \<Rightarrow> ('w \<Rightarrow> ident option \<Rightarrow> ident option \<Rightarrow> ident option \<Rightarrow> ident option \<Rightarrow> error_code \<times> 'w)
     \<Rightarrow> ('w \<Rightarrow> bool)
     \<Rightarrow> ('w \<Rightarrow> ident option \<Rightarrow> ident option \<Rightarrow> error_code \<times> 'w)
     \<Rightarrow> ('w \<Rightarrow> bool) \<Rightarrow> 'w collab" where
  "with_methods c g d n k m e =
     c\<lparr>get_device := g, make_device := d, make_connection := n, check_network := k,
       make_monitor := m, monitors_dictionary_empty := e\<rparr>"

lemma with_methods_constants:
  "SWITCH (with_methods c g d n k m e) = SWITCH c"
  "CLOCK (with_methods c g d n k m e) = CLOCK c"
  "SIGGEN (with_methods c g d n k m e) = SIGGEN c"
  "XOR (with_methods c g d n k m e) = XOR c"
  "gate_types (with_methods c g d n k m e) = gate_types c"
  by (simp_all add: with_methods_def)

lemma error_case_with_methods [simp]:
  "error_case (with_methods c g d n k m e) x v = error_case c x v"
  by (simp only: error_case_def with_methods_constants)

lemma err_with_methods [simp]:
  "err (with_methods c g d n k m e) x a v p = err c x a v p"
  by (simp add: err_def error_def)

lemma check_keyword_with_methods [simp]:
  "check_keyword (with_methods c g d n k m e) kw p = check_keyword c kw p"
  by (simp add: check_keyword_def Let_def)

lemma check_end_with_methods [simp]:
  "check_end (with_methods c g d n k m e) r p = check_end c r p"
  by (simp add: check_end_def)

lemma check_io_with_methods [simp]:
  "check_io (with_methods c g d n k m e) io p = check_io c io p"
  by (simp add: check_io_def Let_def)

lemma connect_syntax_with_methods [simp]:
  "connect_syntax (with_methods c g d n k m e) p = connect_syntax c p"
  by (simp add: connect_syntax_def Let_def split_beta)

lemma monitor_syntax_with_methods [simp]:
  "monitor_syntax (with_methods c g d n k m e) p = monitor_syntax c p"
  by (simp add: monitor_syntax_def Let_def split_beta)

lemma check_syntax_with_methods:
  "syntax_only mt \<Longrightarrow>
     check_syntax (with_methods c g d n k m e) et mt p = check_syntax c et mt p"
proof (induction c et mt p rule: check_syntax.induct)
  case (1 c et mt p)
  let ?c = "with_methods c g d n k m e"
  have cm: "call_method ?c mt p = call_method c mt p"
    using "1.prems" by (auto simp: syntax_only_def call_method_def)
  consider (fin) "sym_id (symbol p) = Some END \<or> sym_id (symbol p) = Some EOF"
    | (item) "sym_id (symbol p) \<noteq> Some END" "sym_id (symbol p) \<noteq> Some EOF"
        "sym_type (symbol p) = Some et"
    | (missing) "sym_id (symbol p) \<noteq> Some END" "sym_id (symbol p) \<noteq> Some EOF"
        "sym_type (symbol p) \<noteq> Some et"
        "sym_type (symbol p) = Some KEYWORDS \<or> sym_type (symbol p) = Some CL"
    | (other) "sym_id (symbol p) \<noteq> Some END" "sym_id (symbol p) \<noteq> Some EOF"
        "sym_type (symbol p) \<noteq> Some et"
        "sym_type (symbol p) \<noteq> Some KEYWORDS" "sym_type (symbol p) \<noteq> Some CL"
    by blast
  then show ?case
  proof cases
    case fin
    then show ?thesis by (simp add: check_syntax_done)
  next
    case item
    have "check_syntax ?c et mt (snd (call_method c mt p))
            = check_syntax c et mt (snd (call_method c mt p))"
      using item "1.prems" by (intro "1.IH"(1)) auto
    with item cm show ?thesis by (simp add: check_syntax_item)
  next
    case missing
    then show ?thesis by (simp add: check_syntax_missing_end)
  next
    case other
    have "check_syntax ?c et mt (err c SYMBOL_TYPE_ERROR True (Some (symbol_types et)) p)
            = check_syntax c et mt (err c SYMBOL_TYPE_ERROR True (Some (symbol_types et)) p)"
      using other "1.prems" by (intro "1.IH"(2)) auto
    with other show ?thesis by (simp add: check_syntax_other)
  qed
qed

lemma connectionlist_with_methods:
  "connectionlist (with_methods c g d n k m e) False p = connectionlist c False p"
  by (simp add: connectionlist_def Let_def split_beta check_syntax_with_methods syntax_only_def)

lemma monitorlist_with_methods:
  "monitorlist (with_methods c g d n k m e) False p = monitorlist c False p"
  by (simp add: monitorlist_def Let_def split_beta check_syntax_with_methods syntax_only_def)

lemma next_symbol_error_count:
  "next_symbol (p\<lparr>error_count := k\<rparr>) = (next_symbol p)\<lparr>error_count := k\<rparr>"
  by (simp add: next_symbol_def split_beta)

lemma skip_symbols_error_count:
  "skip_symbols st (p\<lparr>error_count := k\<rparr>) = (skip_symbols st p)\<lparr>error_count := k\<rparr>"
proof (induction st p rule: skip_symbols.induct)
  case (1 st p)
  show ?case
  proof (cases "id_in (sym_id (symbol p)) (EOF # st)")
    case True
    then show ?thesis by (simp add: skip_symbols_stop_here)
  next
    case False
    with "1.IH" show ?thesis
      by (simp add: skip_symbols_go_on next_symbol_error_count)
  qed
qed

lemma skip_count_stop_here:
  "id_in (sym_id (symbol p)) (EOF # st) \<Longrightarrow> skip_count st p = 0"
  by (simp add: skip_count.simps [of st p])

lemma skip_count_go_on:
  "\<not> id_in (sym_id (symbol p)) (EOF # st) \<Longrightarrow>
     skip_count st p = Suc (skip_count st (next_symbol p))"
  by (simp add: skip_count.simps [of st p])

lemma skip_symbols_funpow:
  "skip_symbols st p = (next_symbol ^^ skip_count st p) p"
proof (induction st p rule: skip_symbols.induct)
  case (1 st p)
  show ?case
  proof (cases "id_in (sym_id (symbol p)) (EOF # st)")
    case True
    then show ?thesis by (simp add: skip_symbols_stop_here skip_count_stop_here)
  next
    case False
    with "1.IH" show ?thesis
      by (simp add: skip_symbols_go_on skip_count_go_on funpow_swap1)
  qed
qed

lemma skip_count_first:
  "k < skip_count st p \<Longrightarrow> \<not> id_in (sym_id (symbol ((next_symbol ^^ k) p))) (EOF # st)"
proof (induction st p arbitrary: k rule: skip_count.induct)
  case (1 st p)
  show ?case
  proof (cases "id_in (sym_id (symbol p)) (EOF # st)")
    case True
    with "1.prems" show ?thesis by (simp add: skip_count_stop_here)
  next
    case False
    show ?thesis
    proof (cases k)
      case 0
      with False show ?thesis by simp
    next
      case (Suc j)
      with "1.prems" False have "j < skip_count st (next_symbol p)"
        by (simp add: skip_count_go_on)
      with False have "\<not> id_in (sym_id (symbol ((next_symbol ^^ j) (next_symbol p)))) (EOF # st)"
        by (intro "1.IH")
      with Suc show ?thesis by (simp add: funpow_swap1)
    qed
  qed
qed

lemma reached_eof_sections:
  "reached_eof p \<Longrightarrow>
     devicelist c p = (None, p) \<and> connectionlist c sc p = (Some True, p) \<and>
     monitorlist c sc p = p"
  by (simp add: devicelist_def connectionlist_def monitorlist_def)

definition message_of :: "'w collab \<Rightarrow> error_code \<Rightarrow> string option \<Rightarrow> string" where
  "message_of c e v = ''***Error: '' @ fst (error_case c e v) @ ''***'' @ newline"

lemma err_no_advance:
  "err c e False v p
     = p\<lparr>error_count := error_count p + 1,
         error_messages := error_messages p
           @ [(message_of c e v, linenum (symbol p), colnum (symbol p))]\<rparr>"
  by (simp add: err_def error_def Let_def message_of_def)

lemma err_at_eof:
  "sym_id (symbol p) = Some EOF \<Longrightarrow>
   err c e True v p
     = p\<lparr>error_count := error_count p + 1, reached_eof := True,
         error_messages := error_messages p
           @ [(message_of c e v, linenum (symbol p), colnum (symbol p))]\<rparr>"
  by (simp add: err_def error_def Let_def message_of_def skip_symbols_stop_here id_in_def)


lemma quiet_get_io:
  "fst (get_io c io p) \<noteq> (None, None) \<Longrightarrow>
     error_messages (snd (get_io c io p)) = error_messages p"
  by (auto simp: get_io_def Let_def split: option.splits if_splits)

lemma quiet_check_keyword:
  "fst (check_keyword c k p) \<Longrightarrow>
     error_messages (snd (check_keyword c k p)) = error_messages p \<and>
     error_count (snd (check_keyword c k p)) = error_count p \<and>
     reached_eof (snd (check_keyword c k p)) = reached_eof p \<and>
     missing_end (snd (check_keyword c k p)) = missing_end p"
  by (auto simp: check_keyword_def Let_def split: if_splits)

lemma quiet_device:
  "fst (device c p) = Some True \<Longrightarrow> error_messages (snd (device c p)) = error_messages p"
  by (auto simp: device_def Let_def split_beta split: if_splits)

lemma quiet_connect:
  "fst (connect c p) = Some True \<Longrightarrow> error_messages (snd (connect c p)) = error_messages p"
proof -
  assume a: "fst (connect c p) = Some True"
  obtain r1 p1 where g1: "get_io c OUTPUT p = (r1, p1)" by (cases "get_io c OUTPUT p")
  obtain r3 p3 where g3: "get_io c INPUT (next_symbol p1) = (r3, p3)"
    by (cases "get_io c INPUT (next_symbol p1)")
  from a g1 have n1: "r1 \<noteq> (None, None)"
    by (auto simp: connect_def split_beta split: if_splits)
  from a g1 g3 have n3: "r3 \<noteq> (None, None)"
    by (auto simp: connect_def Let_def split_beta split: if_splits)
  from quiet_get_io [of c OUTPUT p] g1 n1 have q1: "error_messages p1 = error_messages p"
    by simp
  from quiet_get_io [of c INPUT "next_symbol p1"] g3 n3
  have q3: "error_messages p3 = error_messages p1"
    by simp
  from a g1 g3 q1 q3 show ?thesis
    by (auto simp: connect_def Let_def split_beta split: if_splits)
qed

lemma quiet_call_method:
  "fst (call_method c m p) = Some True \<Longrightarrow>
     error_messages (snd (call_method c m p)) = error_messages p"
  by (cases m)
     (auto simp: call_method_def quiet_device quiet_connect connect_syntax_def monitor_def
        monitor_syntax_def Let_def split_beta split: if_splits)

lemma build_loop_failed: "\<not> fst (build_loop c et m False p)"
proof (induction c et m "False" p rule: build_loop.induct)
  case (1 c et m p)
  then show ?case
    by (subst build_loop.simps) auto
qed

lemma build_loop_quiet:
  "fst (build_loop c et m s p) \<Longrightarrow>
     error_messages (snd (build_loop c et m s p)) = error_messages p \<and>
     (sym_id (symbol (snd (build_loop c et m s p))) = Some END \<or>
      sym_id (symbol (snd (build_loop c et m s p))) = Some EOF)"
proof (induction c et m s p rule: build_loop.induct)
  case (1 c et m s p)
  consider (fin) "sym_id (symbol p) = Some END \<or> sym_id (symbol p) = Some EOF"
    | (item) "sym_id (symbol p) \<noteq> Some END" "sym_id (symbol p) \<noteq> Some EOF"
        "sym_type (symbol p) = Some et"
    | (missing) "sym_id (symbol p) \<noteq> Some END" "sym_id (symbol p) \<noteq> Some EOF"
        "sym_type (symbol p) \<noteq> Some et"
        "sym_type (symbol p) = Some KEYWORDS \<or> sym_type (symbol p) = Some CL"
    | (other) "sym_id (symbol p) \<noteq> Some END" "sym_id (symbol p) \<noteq> Some EOF"
        "sym_type (symbol p) \<noteq> Some et"
        "sym_type (symbol p) \<noteq> Some KEYWORDS" "sym_type (symbol p) \<noteq> Some CL"
    by blast
  then show ?case
  proof cases
    case fin
    then show ?thesis by (auto simp: build_loop_done)
  next
    case item
    let ?s = "if fst (call_method c m p) \<noteq> Some True then False else s"
    have eq: "build_loop c et m s p = build_loop c et m ?s (snd (call_method c m p))"
      using item by (simp add: build_loop_item)
    with "1.prems" have t: "fst (build_loop c et m ?s (snd (call_method c m p)))" by simp
    then have ok: "fst (call_method c m p) = Some True"
      using build_loop_failed [of c et m "snd (call_method c m p)"] by (auto split: if_splits)
    from item t
    have "error_messages (snd (build_loop c et m ?s (snd (call_method c m p))))
            = error_messages (snd (call_method c m p)) \<and>
          (sym_id (symbol (snd (build_loop c et m ?s (snd (call_method c m p))))) = Some END \<or>
           sym_id (symbol (snd (build_loop c et m ?s (snd (call_method c m p))))) = Some EOF)"
      by (intro "1.IH"(1)) auto
    with eq quiet_call_method [OF ok] show ?thesis by simp
  next
    case missing
    with "1.prems" show ?thesis by (simp add: build_loop_missing_end)
  next
    case other
    with "1.prems"
      build_loop_failed [of c et m "err c SYMBOL_TYPE_ERROR True (Some (symbol_types et)) p"]
    show ?thesis by (simp add: build_loop_other)
  qed
qed

definition connection_items :: "'w collab \<Rightarrow> 'w parser \<Rightarrow> 'w parser" where
  "connection_items c p = snd (build_list c NAMES Connect (snd (check_keyword c CONNECTION_LIST p)))"

definition monitor_items :: "'w collab \<Rightarrow> 'w parser \<Rightarrow> 'w parser" where
  "monitor_items c p = snd (build_list c NAMES Monitor (snd (check_keyword c MONITOR_LIST p)))"

lemma message_texts:
  "message_of c UNCONNECTED_INPUTS None = ''***Error: Not all inputs are connected.***'' @ newline"
  "message_of c END_ERROR None
     = ''***Error: Expected either another item in list or the keyword END.***'' @ newline"
  "message_of c NO_MONITOR None
     = ''***Error: No monitor points chosen. At least one output must be monitored.***'' @ newline"
  "message_of c NO_EOF None = ''***Error: End of file not reached.***'' @ newline"
  by (simp_all add: message_of_def error_case_def)












text \<open>The scanner never changes the text that \<open>print_line\<close> reads back.\<close>

lemma file_text_get_next_character [simp]:
  "file_text (snd (get_next_character s)) = file_text s"
  by (simp add: get_next_character_def Let_def split: list.splits)

lemma file_text_gnnwc_loop [simp]: "file_text (snd (gnnwc_loop k s)) = file_text s"
proof (induction k arbitrary: s)
  case 0
  then show ?case by simp
next
  case (Suc k)
  obtain d t where g: "get_next_character s = (d, t)" by (cases "get_next_character s")
  have t: "file_text t = file_text s"
    using file_text_get_next_character [of s] g by simp
  show ?case
    using g t Suc.IH [of t] by (cases d) simp_all
qed

lemma file_text_gnnwc [simp]:
  "file_text (snd (get_next_non_whitespace_character s)) = file_text s"
  by (simp add: get_next_non_whitespace_character_def)

lemma file_text_skip_blanks [simp]: "file_text (skip_blanks s) = file_text s"
  using file_text_gnnwc [of s] by (simp add: skip_blanks_def split_beta)

lemma file_text_comment_step [simp]: "file_text (comment_step s) = file_text s"
proof -
  have a: "file_text (snd (get_next_character s)) = file_text s" by simp
  show ?thesis
    using a by (auto simp: comment_step_def Let_def split_beta)
qed

lemma file_text_comment_loop [simp]: "file_text (comment_loop s) = file_text s"
proof (induction s rule: comment_loop.induct)
  case (1 s)
  show ?case
  proof (cases "comment_switch s \<noteq> 0 \<and> current_char s \<noteq> None")
    case True
    with "1.IH" show ?thesis by (simp add: comment_loop_step)
  next
    case False
    then show ?thesis by (auto simp: comment_loop_stop)
  qed
qed

lemma file_text_comment_body [simp]: "file_text (comment_body s) = file_text s"
proof -
  have a: "file_text (snd (get_next_character s)) = file_text s" by simp
  show ?thesis
    using a by (auto simp: comment_body_def Let_def split_beta)
qed

lemma file_text_comment_check [simp]: "file_text (comment_check s) = file_text s"
proof (induction s rule: comment_check.induct)
  case (1 s)
  show ?case
  proof (cases "current_char s = Some CHR ''/''")
    case True
    with "1.IH" show ?thesis by (simp add: comment_check_step)
  next
    case False
    then show ?thesis by (simp add: comment_check_stop)
  qed
qed

lemma file_text_read_while [simp]: "file_text (snd (read_while P acc s)) = file_text s"
proof (induction P acc s rule: read_while.induct)
  case (1 P acc s)
  show ?case
  proof (cases "current_char s")
    case None
    then show ?thesis by (simp add: read_while.simps [of P acc s])
  next
    case (Some x)
    obtain d t where g: "get_next_character s = (d, t)" by (cases "get_next_character s")
    have t: "file_text t = file_text s"
      using file_text_get_next_character [of s] g by simp
    show ?thesis
    proof (cases "P x")
      case True
      have "file_text (snd (read_while P (acc @ [x]) (t\<lparr>current_char := d\<rparr>)))
              = file_text (t\<lparr>current_char := d\<rparr>)"
        using Some True g by (intro "1.IH") auto
      with Some True g t show ?thesis
        by (simp add: read_while.simps [of P acc s])
    next
      case False
      with Some show ?thesis by (simp add: read_while.simps [of P acc s])
    qed
  qed
qed

lemma file_text_punctuation [simp]:
  "file_text (snd (snd (punctuation x s))) = file_text s"
proof -
  have a: "file_text (snd (get_next_character s)) = file_text s" by simp
  show ?thesis
    using a by (auto simp: punctuation_def split_beta)
qed

lemma file_text_scan_token [simp]: "file_text (snd (scan_token s)) = file_text s"
proof (cases "current_char s")
  case None
  then show ?thesis by (simp add: scan_token_def)
next
  case (Some x)
  have a: "file_text (snd (get_next_character (snd (snd (punctuation x s))))) = file_text s"
    by simp
  from Some a show ?thesis
    by (simp add: scan_token_def split_beta)
qed

lemma file_text_get_symbol [simp]: "file_text (snd (get_symbol s)) = file_text s"
  by (cases "current_char s") (simp_all add: get_symbol_def)

definition from_file :: "string \<Rightarrow> 'w parser \<Rightarrow> bool" where
  "from_file text p = (file_text (scanner p) = text)"

lemma from_file_updates [simp]:
  "from_file t (p\<lparr>world := w\<rparr>) = from_file t p"
  "from_file t (p\<lparr>missing_end := b\<rparr>) = from_file t p"
  "from_file t (p\<lparr>reached_eof := b\<rparr>) = from_file t p"
  "from_file t (p\<lparr>error_count := k\<rparr>) = from_file t p"
  "from_file t (p\<lparr>error_messages := ms\<rparr>) = from_file t p"
  by (simp_all add: from_file_def)


























section \<open>The lexer and comments\<close>

text \<open>
  C9. Comments are elided by the lexer: a block comment ends at the first following
  \<open>*/\<close>, also when that \<open>*/\<close> is preceded by another \<open>*\<close> as in \<open>**/\<close>. The code
  does not do this: inside a block comment a \<open>*\<close> makes the loop read the next character
  and test it for \<open>/\<close>; when it is another \<open>*\<close>, that second star is dropped and the
  \<open>/\<close> after it is read as an ordinary character of the comment. The comment
  \<open>/* a */\<close> ends where it should and the keyword after it is the next symbol; after
  \<open>/* a **/\<close> the keyword is swallowed and the next symbol is the end of the file.
\<close>

theorem block_comment_double_star_swallows_rest:
  "fst (get_symbol (Scanner ''/* a */ END''))
     = \<lparr>sym_type = Some KEYWORDS, sym_id = Some END, linenum = 1, colnum = 9\<rparr> \<and>
   fst (get_symbol (Scanner ''/* a **/ END''))
     = \<lparr>sym_type = None, sym_id = Some EOF, linenum = 1, colnum = 12\<rparr>"
  by code_simp

section \<open>Error accounting\<close>

text \<open>
  C10. Every call of the error handler raises the error count by exactly one and appends
  exactly one entry, whose line and column are those of the symbol that was current when
  the handler was called, before any skipping. Hence the error count equals the number of
  entries after every parser operation that starts from a state where it does, and after
  a whole parse by a new parser.
\<close>

theorem error_count_matches_entries:
  "error_count (snd (error c e a v p)) = error_count p + 1 \<and>
   (\<exists>msg. error_messages (snd (error c e a v p))
            = error_messages p @ [(msg, linenum (symbol p), colnum (symbol p))]) \<and>
   (counted p \<longrightarrow>
      counted (snd (error c e a v p)) \<and> counted (snd (call_method c m p)) \<and>
      counted (snd (build_list c et m p)) \<and> counted (check_syntax c et m p) \<and>
      counted (snd (devicelist c p)) \<and> counted (snd (connectionlist c sc p)) \<and>
      counted (monitorlist c sc p) \<and> counted (snd (snd (parse_network c p)))) \<and>
   counted (snd (snd (parse_network c (Parser w s))))"
proof -
  have e1: "error_count (snd (error c e a v p)) = error_count p + 1"
    using err_frame(1) [of c e a v p] by (simp add: err_def)
  have e2: "\<exists>msg. error_messages (snd (error c e a v p))
            = error_messages p @ [(msg, linenum (symbol p), colnum (symbol p))]"
    using err_messages [of c e a v p] by (simp add: err_def)
  have pn: "counted q \<Longrightarrow> counted (snd (snd (parse_network c q)))" for q :: "'a parser"
    using counted_parse_sections [of q c] by (simp add: parse_network_def Let_def)
  have e3: "counted p \<Longrightarrow> counted (snd (error c e a v p))"
    using counted_err [of p c e a v] by (simp add: err_def)
  have bl: "counted p \<Longrightarrow> counted (snd (build_list c et m p))"
    by (simp add: build_list_def counted_build_loop)
  from e1 e2 e3 bl pn pn [OF counted_Parser] show ?thesis
    by (simp add: counted_call_method counted_check_syntax counted_devicelist
        counted_connectionlist counted_monitorlist)
qed

theorem error_count_matches_entries_witness:
  "counted (Parser sim_empty (Scanner example_program)) \<and>
   counted (snd (snd (parse example_program))) \<and>
   error_count (snd (snd (parse example_program))) = 2"
proof -
  have "counted (Parser sim_empty (Scanner example_program))"
    by (simp add: counted_def Parser_def)
  moreover from this
  have "counted (snd (snd (parse_network sim_collab
                             (Parser sim_empty (Scanner example_program)))))"
    using error_count_matches_entries
      [of sim_collab NO_EOF False None "Parser sim_empty (Scanner example_program)"]
    by blast
  moreover have "error_count (snd (snd (parse example_program))) = 2"
    by code_simp
  ultimately show ?thesis by (simp add: parse_def)
qed

section \<open>Syntax-only parsing after a failed section\<close>

text \<open>A device list whose second item lacks its property, then two well-formed lists.\<close>

definition bad_device_program :: string where
  "bad_device_program = file_of
     [''DEVICE_LIST:'', ''SWITCH sw1 OFF;'', ''AND g1;'', ''END'',
      ''CONNECTION_LIST:'', ''END'',
      ''MONITOR_LIST:'', ''sw1;'', ''END'']"

text \<open>
  C1. When a section fails to validate, no entity is constructed afterwards. The
  syntax-only connection and monitor sections leave the state of the devices, the network
  and the monitors as it is, and their whole result is the same whatever
  \<open>get_device\<close>, \<open>make_device\<close>, \<open>make_connection\<close>, \<open>check_network\<close>,
  \<open>make_monitor\<close> and the monitors dictionary are, so none of them is called. If the
  device list does not return \<open>True\<close>, the connection and the monitor lists are both
  traversed syntax-only; if the device list returns \<open>True\<close> and the connection list
  does not, the monitor list alone is.
\<close>

theorem syntax_only_after_failed_section:
  "world (snd (connectionlist c False q)) = world q \<and>
   world (monitorlist c False q) = world q \<and>
   connectionlist (with_methods c g d n k m e) False q = connectionlist c False q \<and>
   monitorlist (with_methods c g d n k m e) False q = monitorlist c False q \<and>
   (fst (devicelist c (next_symbol p)) \<noteq> Some True \<longrightarrow>
      parse_sections c p
        = monitorlist c False
            (snd (connectionlist c False (snd (devicelist c (next_symbol p))))) \<and>
      world (parse_sections c p) = world (snd (devicelist c (next_symbol p)))) \<and>
   (fst (devicelist c (next_symbol p)) = Some True \<and>
    fst (connectionlist c True (snd (devicelist c (next_symbol p)))) \<noteq> Some True \<longrightarrow>
      parse_sections c p
        = monitorlist c False
            (snd (connectionlist c True (snd (devicelist c (next_symbol p))))) \<and>
      world (parse_sections c p)
        = world (snd (connectionlist c True (snd (devicelist c (next_symbol p))))))"
  by (simp add: world_connectionlist_syntax world_monitorlist_syntax
      connectionlist_with_methods monitorlist_with_methods parse_sections_def split_beta)


theorem syntax_only_after_failed_section_witness:
  "fst (devicelist sim_collab (next_symbol (Parser sim_empty (Scanner bad_device_program))))
     \<noteq> Some True \<and>
   world (parse_sections sim_collab (Parser sim_empty (Scanner bad_device_program)))
     = world (snd (devicelist sim_collab
                     (next_symbol (Parser sim_empty (Scanner bad_device_program))))) \<and>
   fst (devicelist sim_collab (next_symbol (Parser sim_empty (Scanner example_program))))
     = Some True \<and>
   fst (connectionlist sim_collab True
          (snd (devicelist sim_collab
                  (next_symbol (Parser sim_empty (Scanner example_program))))))
     \<noteq> Some True \<and>
   world (parse_sections sim_collab (Parser sim_empty (Scanner example_program)))
     = world (snd (connectionlist sim_collab True
          (snd (devicelist sim_collab
                  (next_symbol (Parser sim_empty (Scanner example_program)))))))"
proof -
  have d1: "fst (devicelist sim_collab
                   (next_symbol (Parser sim_empty (Scanner bad_device_program))))
              \<noteq> Some True"
    by code_simp
  have d2: "fst (devicelist sim_collab
                   (next_symbol (Parser sim_empty (Scanner example_program))))
              = Some True"
    by code_simp
  have c2: "fst (connectionlist sim_collab True
                   (snd (devicelist sim_collab
                           (next_symbol (Parser sim_empty (Scanner example_program))))))
              \<noteq> Some True"
    by code_simp
  from d1 d2 c2
    syntax_only_after_failed_section
      [where c = sim_collab and p = "Parser sim_empty (Scanner bad_device_program)"]
    syntax_only_after_failed_section
      [where c = sim_collab and p = "Parser sim_empty (Scanner example_program)"]
  show ?thesis by blast
qed

section \<open>The result of a parse\<close>





section \<open>Error recovery\<close>

text \<open>
  C5. The stopping list of every error contains the end-of-file identifier. When an error
  asks for recovery (\<open>advance_symbol\<close>), the parser skips to the first symbol, counted
  from the current one, whose identifier is in the stopping list, and returns that
  identifier. If it is not the end of the file, the parser reads the symbol after it and
  the end-of-file flag is as before; if it is, the parser stays on it and sets the flag.
  With the flag set, each of the three section methods returns at once and leaves the
  state, the current symbol included, untouched.
\<close>

theorem error_recovery:
  "EOF \<in> set (stopping_symbol c e v) \<and>
   (let n = skip_count (snd (error_case c e v)) p;
        q = (next_symbol ^^ n) p;
        p' = snd (error c e True v p)
    in id_in (sym_id (symbol q)) (stopping_symbol c e v) \<and>
       (\<forall>k<n. \<not> id_in (sym_id (symbol ((next_symbol ^^ k) p))) (stopping_symbol c e v)) \<and>
       fst (error c e True v p) = sym_id (symbol q) \<and>
       (sym_id (symbol q) \<noteq> Some EOF \<longrightarrow>
          symbol p' = symbol (next_symbol q) \<and> scanner p' = scanner (next_symbol q) \<and>
          reached_eof p' = reached_eof p) \<and>
       (sym_id (symbol q) = Some EOF \<longrightarrow>
          symbol p' = symbol q \<and> scanner p' = scanner q \<and> reached_eof p')) \<and>
   (reached_eof p \<longrightarrow>
      devicelist c p = (None, p) \<and> connectionlist c sc p = (Some True, p) \<and>
      monitorlist c sc p = p)"
proof -
  define st where "st = snd (error_case c e v)"
  define q where "q = (next_symbol ^^ skip_count st p) p"
  have sk: "skip_symbols st (p\<lparr>error_count := error_count p + 1\<rparr>)
              = q\<lparr>error_count := error_count p + 1\<rparr>"
    unfolding q_def skip_symbols_funpow [symmetric] by (rule skip_symbols_error_count)
  have stop: "id_in (sym_id (symbol q)) (EOF # st)"
    using skip_symbols_stops [of st p] by (simp add: skip_symbols_funpow q_def)
  have first: "\<forall>k<skip_count st p. \<not> id_in (sym_id (symbol ((next_symbol ^^ k) p))) (EOF # st)"
    by (simp add: skip_count_first)
  have ne: "sym_id (symbol q) \<noteq> Some EOF \<Longrightarrow>
              fst (error c e True v p) = sym_id (symbol q) \<and>
              symbol (snd (error c e True v p)) = symbol (next_symbol q) \<and>
              scanner (snd (error c e True v p)) = scanner (next_symbol q) \<and>
              reached_eof (snd (error c e True v p)) = reached_eof p"
    using sk by (simp add: error_def Let_def st_def [symmetric] next_symbol_error_count
        q_def skip_symbols_funpow [symmetric])
  have eof: "sym_id (symbol q) = Some EOF \<Longrightarrow>
              fst (error c e True v p) = sym_id (symbol q) \<and>
              symbol (snd (error c e True v p)) = symbol q \<and>
              scanner (snd (error c e True v p)) = scanner q \<and>
              reached_eof (snd (error c e True v p))"
    using sk by (simp add: error_def Let_def st_def [symmetric])
  from stop first ne eof reached_eof_sections [of p c sc] show ?thesis
    unfolding Let_def stopping_symbol_def st_def [symmetric] q_def [symmetric]
    by (cases "sym_id (symbol q) = Some EOF") auto
qed


theorem error_recovery_witness:
  "skip_count (snd (error_case sim_collab NO_DEVICE None))
     (next_symbol (Parser sim_empty (Scanner ''x y ; z''))) = 2 \<and>
   \<not> id_in (sym_id (symbol ((next_symbol ^^ 1)
                               (next_symbol (Parser sim_empty (Scanner ''x y ; z''))))))
       (stopping_symbol sim_collab NO_DEVICE None) \<and>
   sym_id (symbol ((next_symbol ^^ skip_count (snd (error_case sim_collab NO_DEVICE None))
                                     (next_symbol (Parser sim_empty (Scanner ''x y ; z''))))
                     (next_symbol (Parser sim_empty (Scanner ''x y ; z'')))))
     = Some SEMI_COLON \<and>
   sym_id (symbol (snd (error sim_collab NO_DEVICE True None
                          (next_symbol (Parser sim_empty (Scanner ''x y ; z''))))))
     = Some ''z'' \<and>
   sym_id (symbol ((next_symbol ^^ skip_count (snd (error_case sim_collab NO_DEVICE None))
                                     (next_symbol (Parser sim_empty (Scanner ''x y''))))
                     (next_symbol (Parser sim_empty (Scanner ''x y'')))))
     = Some EOF \<and>
   reached_eof (snd (error sim_collab NO_DEVICE True None
                       (next_symbol (Parser sim_empty (Scanner ''x y''))))) \<and>
   devicelist sim_collab
     (snd (error sim_collab NO_DEVICE True None
             (next_symbol (Parser sim_empty (Scanner ''x y'')))))
     = (None, snd (error sim_collab NO_DEVICE True None
                     (next_symbol (Parser sim_empty (Scanner ''x y'')))))"
proof -
  let ?a = "next_symbol (Parser sim_empty (Scanner ''x y ; z''))"
  let ?b = "next_symbol (Parser sim_empty (Scanner ''x y''))"
  let ?st = "snd (error_case sim_collab NO_DEVICE None)"
  have na: "skip_count ?st ?a = 2" by code_simp
  have qa: "sym_id (symbol ((next_symbol ^^ 2) ?a)) = Some SEMI_COLON" by code_simp
  have za: "sym_id (symbol (next_symbol ((next_symbol ^^ 2) ?a))) = Some ''z''" by code_simp
  have nb: "skip_count ?st ?b = 2" by code_simp
  have qb: "sym_id (symbol ((next_symbol ^^ 2) ?b)) = Some EOF" by code_simp
  from error_recovery [of sim_collab NO_DEVICE None ?a, unfolded Let_def] na qa
  have "symbol (snd (error sim_collab NO_DEVICE True None ?a))
          = symbol (next_symbol ((next_symbol ^^ 2) ?a))"
    by simp
  with za have ra: "sym_id (symbol (snd (error sim_collab NO_DEVICE True None ?a))) = Some ''z''"
    by simp
  from error_recovery [of sim_collab NO_DEVICE None ?b, unfolded Let_def] nb qb
  have rb: "reached_eof (snd (error sim_collab NO_DEVICE True None ?b))"
    by simp
  from error_recovery [of sim_collab NO_DEVICE None
         "snd (error sim_collab NO_DEVICE True None ?b)"] rb
  have "devicelist sim_collab (snd (error sim_collab NO_DEVICE True None ?b))
          = (None, snd (error sim_collab NO_DEVICE True None ?b))"
    by blast
  moreover
  from error_recovery [of sim_collab NO_DEVICE None ?a, unfolded Let_def] na
  have "\<forall>k<2. \<not> id_in (sym_id (symbol ((next_symbol ^^ k) ?a)))
                       (stopping_symbol sim_collab NO_DEVICE None)"
    by simp
  then have "\<not> id_in (sym_id (symbol ((next_symbol ^^ 1) ?a)))
                 (stopping_symbol sim_collab NO_DEVICE None)"
    by (rule allE [where x = 1]) simp
  ultimately show ?thesis using na qa ra nb qb rb by simp
qed


section \<open>The wiring check\<close>

text \<open>A gate with three inputs, of which the connection list drives two.\<close>

definition three_input_program :: string where
  "three_input_program = file_of
     [''DEVICE_LIST:'', ''SWITCH sw1 OFF;'', ''AND g1 3;'', ''END'',
      ''CONNECTION_LIST:'', ''sw1 -> g1.I1;'', ''sw1 -> g1.I2;'', ''END'',
      ''MONITOR_LIST:'', ''g1;'', ''END'']"

definition after_devicelist :: "string \<Rightarrow> sim parser" where
  "after_devicelist text = snd (devicelist sim_collab (next_symbol (Parser sim_empty (Scanner text))))"

text \<open>
  C7. When the connection list has been built with semantic checks (the list keyword was
  found and every item succeeded), the wiring check runs once. If it finds the network
  not fully connected, the section returns \<open>False\<close> and exactly one "Not all inputs are
  connected" error is added, at the symbol that ended the list, whatever the number of
  unconnected inputs; the only other error the section can still add is the one for a
  missing END.
\<close>

theorem unconnected_inputs_one_error:
  assumes "\<not> reached_eof p"
    and "fst (check_keyword c CONNECTION_LIST p)"
    and "fst (build_list c NAMES Connect (snd (check_keyword c CONNECTION_LIST p)))"
    and "\<not> check_network c (world (connection_items c p))"
  shows "fst (connectionlist c True p) = Some False \<and>
    error_messages (snd (connectionlist c True p))
      = error_messages p
          @ (''***Error: Not all inputs are connected.***'' @ newline,
             linenum (symbol (connection_items c p)), colnum (symbol (connection_items c p)))
          # (if sym_id (symbol (connection_items c p)) = Some END then []
             else [(''***Error: Expected either another item in list or the keyword END.***''
                      @ newline,
                    linenum (symbol (connection_items c p)),
                    colnum (symbol (connection_items c p)))]) \<and>
    length (filter (\<lambda>x. fst x = ''***Error: Not all inputs are connected.***'' @ newline)
              (drop (length (error_messages p))
                 (error_messages (snd (connectionlist c True p))))) = 1"
proof -
  define p1 where "p1 = snd (check_keyword c CONNECTION_LIST p)"
  define q where "q = connection_items c p"
  have q: "q = snd (build_loop c NAMES Connect True p1)"
    by (simp add: q_def connection_items_def build_list_def p1_def)
  have b: "fst (build_loop c NAMES Connect True p1)"
    using assms(3) by (simp add: build_list_def p1_def)
  have m1: "error_messages p1 = error_messages p"
    using quiet_check_keyword [OF assms(2)] by (simp add: p1_def)
  from build_loop_quiet [OF b] q
  have mq: "error_messages q = error_messages p1"
    and sq: "sym_id (symbol q) = Some END \<or> sym_id (symbol q) = Some EOF"
    by simp_all
  have cl: "connectionlist c True p
              = (Some False, check_end c True (err c UNCONNECTED_INPUTS False None q))"
    using assms b q by (simp add: connectionlist_def split_beta build_list_def p1_def q_def)
  let ?u = "err c UNCONNECTED_INPUTS False None q"
  have u: "error_messages ?u = error_messages p
             @ [(''***Error: Not all inputs are connected.***'' @ newline,
                 linenum (symbol q), colnum (symbol q))]"
    "symbol ?u = symbol q"
    by (simp_all add: err_no_advance message_texts mq m1)
  have ms: "error_messages (check_end c True ?u)
      = error_messages p
          @ (''***Error: Not all inputs are connected.***'' @ newline,
             linenum (symbol q), colnum (symbol q))
          # (if sym_id (symbol q) = Some END then []
             else [(''***Error: Expected either another item in list or the keyword END.***''
                      @ newline, linenum (symbol q), colnum (symbol q))])"
  proof (cases "sym_id (symbol q) = Some END")
    case True
    with u show ?thesis by (simp add: check_end_def)
  next
    case False
    with sq have "sym_id (symbol ?u) = Some EOF" using u(2) by simp
    from err_at_eof [OF this, of c END_ERROR None] False u show ?thesis
      by (simp add: check_end_def message_texts)
  qed
  from cl ms show ?thesis
    unfolding q_def [symmetric] by (simp add: newline_def)
qed


theorem unconnected_inputs_one_error_witness:
  "\<not> reached_eof (after_devicelist three_input_program) \<and>
   fst (check_keyword sim_collab CONNECTION_LIST (after_devicelist three_input_program)) \<and>
   fst (build_list sim_collab NAMES Connect
          (snd (check_keyword sim_collab CONNECTION_LIST
                  (after_devicelist three_input_program)))) \<and>
   \<not> check_network sim_collab
        (world (connection_items sim_collab (after_devicelist three_input_program))) \<and>
   fst (connectionlist sim_collab True (after_devicelist three_input_program)) = Some False \<and>
   error_messages (snd (connectionlist sim_collab True (after_devicelist three_input_program)))
     = [(''***Error: Not all inputs are connected.***'' @ newline, 8, 1)]"
proof -
  let ?p = "after_devicelist three_input_program"
  have h1: "\<not> reached_eof ?p" by code_simp
  have h2: "fst (check_keyword sim_collab CONNECTION_LIST ?p)" by code_simp
  have h3: "fst (build_list sim_collab NAMES Connect
                   (snd (check_keyword sim_collab CONNECTION_LIST ?p)))"
    by code_simp
  have h4: "\<not> check_network sim_collab (world (connection_items sim_collab ?p))"
    by code_simp
  have v: "error_messages ?p = []"
    "sym_id (symbol (connection_items sim_collab ?p)) = Some END"
    "linenum (symbol (connection_items sim_collab ?p)) = 8"
    "colnum (symbol (connection_items sim_collab ?p)) = 1"
    by code_simp+
  from unconnected_inputs_one_error [OF h1 h2 h3 h4] h1 h2 h3 h4 v show ?thesis
    by simp
qed

section \<open>An empty monitor list\<close>

definition no_monitor_program :: string where
  "no_monitor_program = file_of
     [''DEVICE_LIST:'', ''SWITCH sw1 OFF;'', ''END'',
      ''CONNECTION_LIST:'', ''END'',
      ''MONITOR_LIST:'', ''END'']"

definition after_connectionlist :: "string \<Rightarrow> sim parser" where
  "after_connectionlist text = snd (connectionlist sim_collab True (after_devicelist text))"

text \<open>
  C8. When the monitor list has been processed with semantic checks and the monitors
  dictionary is empty, exactly one "No monitor points chosen" error is added. It is
  raised without recovery: the current symbol, the scanner and the end-of-file flag are
  as before it. The section then still checks for END and for the end of the file, each
  of which adds its own error without skipping either.
\<close>

theorem no_monitor_one_error:
  assumes "\<not> reached_eof p"
    and "fst (check_keyword c MONITOR_LIST p)"
    and "monitors_dictionary_empty c (world (monitor_items c p))"
  shows "monitorlist c True p
      = (let p3 = check_end c False (err c NO_MONITOR False None (monitor_items c p))
         in if sym_id (symbol p3) \<noteq> Some EOF then err c NO_EOF False None p3 else p3) \<and>
    symbol (err c NO_MONITOR False None (monitor_items c p)) = symbol (monitor_items c p) \<and>
    scanner (err c NO_MONITOR False None (monitor_items c p)) = scanner (monitor_items c p) \<and>
    reached_eof (monitorlist c True p) = reached_eof (monitor_items c p) \<and>
    error_messages (monitorlist c True p)
      = error_messages (monitor_items c p)
          @ (''***Error: No monitor points chosen. At least one output must be monitored.***''
               @ newline,
             linenum (symbol (monitor_items c p)), colnum (symbol (monitor_items c p)))
          # (if sym_id (symbol (monitor_items c p)) = Some END then []
             else [(''***Error: Expected either another item in list or the keyword END.***''
                      @ newline,
                    linenum (symbol (monitor_items c p)),
                    colnum (symbol (monitor_items c p)))])
          @ (if sym_id (symbol (monitorlist c True p)) \<noteq> Some EOF
             then [(''***Error: End of file not reached.***'' @ newline,
                    linenum (symbol (monitorlist c True p)),
                    colnum (symbol (monitorlist c True p)))]
             else [])"
proof -
  define q where "q = monitor_items c p"
  let ?u = "err c NO_MONITOR False None q"
  let ?p3 = "check_end c False ?u"
  have ml: "monitorlist c True p
      = (if sym_id (symbol ?p3) \<noteq> Some EOF then err c NO_EOF False None ?p3 else ?p3)"
    using assms
    by (simp add: monitorlist_def Let_def split_beta monitor_items_def [symmetric]
        q_def [symmetric])
  have u: "symbol ?u = symbol q" "scanner ?u = scanner q" "reached_eof ?u = reached_eof q"
    "error_messages ?u = error_messages q
       @ [(''***Error: No monitor points chosen. At least one output must be monitored.***''
             @ newline, linenum (symbol q), colnum (symbol q))]"
    by (simp_all add: err_no_advance message_texts)
  have p3: "reached_eof ?p3 = reached_eof q"
    "error_messages ?p3 = error_messages ?u
       @ (if sym_id (symbol q) = Some END then []
          else [(''***Error: Expected either another item in list or the keyword END.***''
                   @ newline, linenum (symbol q), colnum (symbol q))])"
    using u by (simp_all add: check_end_def err_no_advance message_texts)
  have fin: "symbol (monitorlist c True p) = symbol ?p3"
    by (simp add: ml err_no_advance)
  have "error_messages (monitorlist c True p)
      = error_messages ?p3
          @ (if sym_id (symbol ?p3) \<noteq> Some EOF
             then [(''***Error: End of file not reached.***'' @ newline,
                    linenum (symbol ?p3), colnum (symbol ?p3))]
             else [])"
    by (simp add: ml err_no_advance message_texts)
  moreover have "reached_eof (monitorlist c True p) = reached_eof q"
    using p3(1) by (simp add: ml err_no_advance)
  ultimately show ?thesis
    unfolding q_def [symmetric] Let_def fin using ml u p3 by simp
qed

theorem no_monitor_one_error_witness:
  "\<not> reached_eof (after_connectionlist no_monitor_program) \<and>
   fst (check_keyword sim_collab MONITOR_LIST (after_connectionlist no_monitor_program)) \<and>
   monitors_dictionary_empty sim_collab
     (world (monitor_items sim_collab (after_connectionlist no_monitor_program))) \<and>
   error_messages (monitorlist sim_collab True (after_connectionlist no_monitor_program))
     = [(''***Error: No monitor points chosen. At least one output must be monitored.***''
           @ newline, 7, 1)] \<and>
   sym_id (symbol (monitorlist sim_collab True (after_connectionlist no_monitor_program)))
     = Some EOF"
proof -
  let ?p = "after_connectionlist no_monitor_program"
  have h1: "\<not> reached_eof ?p" by code_simp
  have h2: "fst (check_keyword sim_collab MONITOR_LIST ?p)" by code_simp
  have h3: "monitors_dictionary_empty sim_collab (world (monitor_items sim_collab ?p))"
    by code_simp
  have v: "error_messages (monitor_items sim_collab ?p) = []"
    "sym_id (symbol (monitor_items sim_collab ?p)) = Some END"
    "linenum (symbol (monitor_items sim_collab ?p)) = 7"
    "colnum (symbol (monitor_items sim_collab ?p)) = 1"
    "sym_id (symbol (monitorlist sim_collab True ?p)) = Some EOF"
    by code_simp+
  note r = no_monitor_one_error [OF h1 h2 h3]
  from r [THEN conjunct2, THEN conjunct2, THEN conjunct2, THEN conjunct2] h1 h2 h3 v
  show ?thesis by simp
qed


section \<open>Pin suffixes\<close>






section \<open>A list that is not terminated\<close>

text \<open>A monitor list in which a list keyword stands where an item or END is expected.\<close>

definition stray_keyword_program :: string where
  "stray_keyword_program = file_of
     [''DEVICE_LIST:'', ''SWITCH sw1 OFF;'', ''END'',
      ''CONNECTION_LIST:'', ''END'',
      ''MONITOR_LIST:'', ''sw1;'', ''DEVICE_LIST'', ''END'']"

text \<open>A device list with the same fault.\<close>

definition stray_keyword_in_devices :: string where
  "stray_keyword_in_devices = file_of
     [''DEVICE_LIST:'', ''SWITCH sw1 OFF;'', ''MONITOR_LIST'', ''END'']"

text \<open>
  C6. A keyword or a colon where an item or END is expected gives exactly one "Expected
  either another item in list or the keyword END" error and ends the section at once,
  the offending symbol not consumed. The item loops do this (\<open>build_loop_missing_end\<close>,
  \<open>check_syntax_missing_end\<close>), and \<open>devicelist\<close> and \<open>connectionlist\<close> then skip
  their check for END: the device list below records the error once. \<open>monitorlist\<close>
  does not look at \<open>missing_end\<close>; it goes on to check for END on the same symbol and
  records the same error a second time, at the same position, before the end-of-file
  error.
\<close>

theorem monitor_list_reports_missing_end_twice:
  "error_messages (after_devicelist stray_keyword_in_devices)
     = [(''***Error: Expected either another item in list or the keyword END.***'' @ newline,
         3, 1)] \<and>
   error_messages (snd (snd (parse stray_keyword_program)))
     = [(''***Error: Expected either another item in list or the keyword END.***'' @ newline,
         8, 1),
        (''***Error: Expected either another item in list or the keyword END.***'' @ newline,
         8, 1),
        (''***Error: End of file not reached.***'' @ newline, 8, 1)]"
  by code_simp

section \<open>Valid programs\<close>

text \<open>
  C2, as the claim states it: the example program of the definition language parses.
  It does not. In \<open>sw1 -> g1.1;\<close> the pin \<open>1\<close> is scanned as a NUMBER, and \<open>get_io\<close>
  accepts only a NAME after the \<open>.\<close>; both connection items are rejected with "No
  identifier present" and \<open>parse_network\<close> returns \<open>False\<close>.
\<close>

theorem example_program_rejected:
  "fst (parse example_program) = False \<and>
   error_messages (snd (snd (parse example_program)))
     = [(''***Error: No identifier present. Parsing resumed on line 7.***'' @ newline, 6, 11),
        (''***Error: No identifier present. Parsing resumed on line 8.***'' @ newline, 7, 11)]"
  by code_simp

text \<open>
  The symbols of a valid program. A token is the type and the identifier of a symbol;
  \<open>stream s ts\<close> says that the scanner in state \<open>s\<close> delivers the tokens \<open>ts\<close> next,
  \<open>upcoming p ts\<close> that the parser's current symbol and then the scanner do. A device
  item is a device-type keyword, a name and possibly a property symbol; an output
  reference is a name with or without a pin, an input reference a name with a pin; every
  pin is a NAME symbol. \<open>accepted\<close> runs the constructions of a program through the
  collaborators in the order of the parse and gives the resulting state if each device is
  new and declared without error, each output reference names an existing device (a
  name is none of the reserved words, so not END) and carries a pin exactly for a D_TYPE, each connection and each monitor point is made
  without error, the network is fully connected and a monitor point is registered.
\<close>

type_synonym token = "symtype option \<times> ident option"

definition tok :: "symbol \<Rightarrow> token" where
  "tok y = (sym_type y, sym_id y)"

fun stream :: "scanner \<Rightarrow> token list \<Rightarrow> bool" where
  "stream s [] = True"
| "stream s (t # ts) = (tok (fst (get_symbol s)) = t \<and> stream (snd (get_symbol s)) ts)"

definition upcoming :: "'w parser \<Rightarrow> token list \<Rightarrow> bool" where
  "upcoming p ts = (case ts of [] \<Rightarrow> True | t # ts' \<Rightarrow> tok (symbol p) = t \<and> stream (scanner p) ts')"

lemma stream_upcoming: "stream (scanner p) ts = upcoming (next_symbol p) ts"
  by (cases ts) (simp_all add: upcoming_def next_symbol_def split_beta)

lemma upcoming_Nil [simp]: "upcoming p []"
  by (simp add: upcoming_def)

lemma upcoming_Cons [simp]:
  "upcoming p (t # ts)
     = (sym_type (symbol p) = fst t \<and> sym_id (symbol p) = snd t \<and> upcoming (next_symbol p) ts)"
  by (auto simp: upcoming_def stream_upcoming tok_def)

lemma next_symbol_world [simp]:
  "next_symbol (p\<lparr>world := w\<rparr>) = (next_symbol p)\<lparr>world := w\<rparr>"
  by (simp add: next_symbol_def split_beta)

lemma upcoming_world [simp]: "upcoming (p\<lparr>world := w\<rparr>) ts = upcoming p ts"
  by (cases ts) (simp_all add: upcoming_def)

type_synonym device_item = "ident \<times> ident \<times> token option"
type_synonym reference = "ident \<times> ident option"
type_synonym connection_item = "reference \<times> ident \<times> ident"

definition semicolon :: token where
  "semicolon = (Some SCL, Some SEMI_COLON)"

definition keyword :: "ident \<Rightarrow> token" where
  "keyword k = (Some KEYWORDS, Some k)"

definition colon :: token where
  "colon = (Some CL, Some COLON)"

definition device_tokens :: "device_item \<Rightarrow> token list" where
  "device_tokens d =
     (case d of
        (kw, n, prop) \<Rightarrow>
          [(Some DEVICETYPE, Some kw), (Some NAMES, Some n)]
            @ (case prop of None \<Rightarrow> [] | Some t \<Rightarrow> [t]) @ [semicolon])"

definition reference_tokens :: "reference \<Rightarrow> token list" where
  "reference_tokens r =
     (case r of
        (n, None) \<Rightarrow> [(Some NAMES, Some n)]
      | (n, Some pin) \<Rightarrow> [(Some NAMES, Some n), (Some PE, Some PERIOD), (Some NAMES, Some pin)])"

definition connection_tokens :: "connection_item \<Rightarrow> token list" where
  "connection_tokens x =
     (case x of
        (out, i, ip) \<Rightarrow>
          reference_tokens out @ [(Some AR, Some ARROW)] @ reference_tokens (i, Some ip)
            @ [semicolon])"

definition monitor_tokens :: "reference \<Rightarrow> token list" where
  "monitor_tokens r = reference_tokens r @ [semicolon]"

definition program_tokens ::
  "device_item list \<Rightarrow> connection_item list \<Rightarrow> reference list \<Rightarrow> token list" where
  "program_tokens ds cs ms =
     [keyword DEVICE_LIST, colon] @ concat (map device_tokens ds)
       @ [keyword END, keyword CONNECTION_LIST, colon] @ concat (map connection_tokens cs)
       @ [keyword END, keyword MONITOR_LIST, colon] @ concat (map monitor_tokens ms)
       @ [keyword END, (None, Some EOF)]"

definition token_property :: "'w collab \<Rightarrow> ident option \<Rightarrow> token \<Rightarrow> property option" where
  "token_property c ty t =
     (let property = snd t
      in if ty = Some (SWITCH c) \<and> id_in property initial_states
         then (if property = Some OFF then Some (LOW c) else Some (HIGH c))
         else if fst t = Some NUMBER
         then (case property of
                 None \<Rightarrow> None
               | Some prop \<Rightarrow>
                   if ty = Some (SIGGEN c) then Some (PStr prop)
                   else Some (PInt (int_of_string prop)))
         else None)"

lemma get_property_token: "get_property c ty p = token_property c ty (tok (symbol p))"
  by (simp add: get_property_def token_property_def tok_def Let_def)

definition item_property :: "'w collab \<Rightarrow> ident \<Rightarrow> token option \<Rightarrow> property option" where
  "item_property c kw prop =
     (case prop of None \<Rightarrow> None | Some t \<Rightarrow> token_property c (Some kw) t)"

definition property_token :: "token option \<Rightarrow> bool" where
  "property_token prop =
     (case prop of None \<Rightarrow> True | Some t \<Rightarrow> fst t = Some PROPERTY \<or> fst t = Some NUMBER)"

fun declare_devices :: "'w collab \<Rightarrow> 'w \<Rightarrow> device_item list \<Rightarrow> 'w option" where
  "declare_devices c w [] = Some w"
| "declare_devices c w ((kw, n, prop) # ds) =
     (if kw \<in> set device_keywords \<and> property_token prop \<and> get_device c w (Some n) = None \<and>
         fst (make_device c w (Some n) (Some kw) (item_property c kw prop)) = DEVICES_NO_ERROR
      then declare_devices c
             (snd (make_device c w (Some n) (Some kw) (item_property c kw prop))) ds
      else None)"

definition output_ok :: "'w collab \<Rightarrow> 'w \<Rightarrow> reference \<Rightarrow> bool" where
  "output_ok c w r =
     (fst r \<noteq> END \<and> fst r \<noteq> EOF \<and>
      (case get_device c w (Some (fst r)) of
         None \<Rightarrow> False
       | Some kind \<Rightarrow> (kind = D_TYPE c) = (snd r \<noteq> None)))"

fun make_connections :: "'w collab \<Rightarrow> 'w \<Rightarrow> connection_item list \<Rightarrow> 'w option" where
  "make_connections c w [] = Some w"
| "make_connections c w ((out, i, ip) # cs) =
     (if output_ok c w out \<and> get_device c w (Some i) \<noteq> None \<and>
         fst (make_connection c w (Some i) (Some ip) (Some (fst out)) (snd out))
           = NETWORK_NO_ERROR
      then make_connections c
             (snd (make_connection c w (Some i) (Some ip) (Some (fst out)) (snd out))) cs
      else None)"

fun make_monitors :: "'w collab \<Rightarrow> 'w \<Rightarrow> reference list \<Rightarrow> 'w option" where
  "make_monitors c w [] = Some w"
| "make_monitors c w (out # ms) =
     (if output_ok c w out \<and>
         fst (make_monitor c w (Some (fst out)) (snd out)) = MONITORS_NO_ERROR
      then make_monitors c (snd (make_monitor c w (Some (fst out)) (snd out))) ms
      else None)"

definition accepted ::
  "'w collab \<Rightarrow> 'w \<Rightarrow> device_item list \<Rightarrow> connection_item list \<Rightarrow> reference list \<Rightarrow> 'w option" where
  "accepted c w ds cs ms =
     (case declare_devices c w ds of
        None \<Rightarrow> None
      | Some w1 \<Rightarrow>
          (case make_connections c w1 cs of
             None \<Rightarrow> None
           | Some w2 \<Rightarrow>
               if \<not> check_network c w2 then None
               else (case make_monitors c w2 ms of
                       None \<Rightarrow> None
                     | Some w3 \<Rightarrow>
                         if monitors_dictionary_empty c w3 then None else Some w3)))"

definition quiet :: "'w parser \<Rightarrow> 'w parser \<Rightarrow> bool" where
  "quiet p p' =
     (error_count p' = error_count p \<and> error_messages p' = error_messages p \<and>
      reached_eof p' = reached_eof p)"

lemma quiet_refl [simp]: "quiet p p"
  by (simp add: quiet_def)

lemma quiet_trans: "quiet p q \<Longrightarrow> quiet q r \<Longrightarrow> quiet p r"
  by (simp add: quiet_def)

lemma quiet_next [simp]: "quiet p (next_symbol q) = quiet p q"
  by (simp add: quiet_def)

lemma quiet_world [simp]: "quiet p (q\<lparr>world := w\<rparr>) = quiet p q"
  by (simp add: quiet_def)

lemma device_accepts:
  assumes "upcoming p (device_tokens (kw, n, pr) @ ts)"
    and "kw \<in> set device_keywords" and "property_token pr"
    and "get_device c (world p) (Some n) = None"
    and "make_device c (world p) (Some n) (Some kw) (item_property c kw pr)
           = (DEVICES_NO_ERROR, w)"
  shows "fst (device c p) = Some True \<and> upcoming (snd (device c p)) ts \<and>
         world (snd (device c p)) = w \<and> quiet p (snd (device c p))"
proof (cases pr)
  case None
  with assms show ?thesis
    by (simp add: device_tokens_def semicolon_def device_def Let_def id_in_def
        check_valid_name_def item_property_def)
next
  case (Some t)
  with assms show ?thesis
    by (auto simp: device_tokens_def semicolon_def device_def Let_def id_in_def
        check_valid_name_def item_property_def property_token_def get_property_token tok_def)
qed


lemma get_io_output_accepts:
  assumes "upcoming p (reference_tokens r @ t # ts)" and "fst t \<noteq> Some PE"
    and "output_ok c (world p) r"
  shows "get_io c OUTPUT p = ((Some (fst r), snd r), snd (get_io c OUTPUT p)) \<and>
         upcoming (snd (get_io c OUTPUT p)) (t # ts) \<and>
         world (snd (get_io c OUTPUT p)) = world p \<and> quiet p (snd (get_io c OUTPUT p))"
proof (cases r)
  case (Pair n pin)
  show ?thesis
  proof (cases pin)
    case None
    with Pair assms show ?thesis
      by (auto simp: reference_tokens_def get_io_def Let_def output_ok_def
          split: option.splits)
  next
    case (Some x)
    with Pair assms show ?thesis
      by (auto simp: reference_tokens_def get_io_def Let_def output_ok_def
          split: option.splits)
  qed
qed

lemma get_io_input_accepts:
  assumes "upcoming p (reference_tokens (i, Some ip) @ ts)"
    and "get_device c (world p) (Some i) \<noteq> None"
  shows "get_io c INPUT p = ((Some i, Some ip), snd (get_io c INPUT p)) \<and>
         upcoming (snd (get_io c INPUT p)) ts \<and>
         world (snd (get_io c INPUT p)) = world p \<and> quiet p (snd (get_io c INPUT p))"
  using assms
  by (auto simp: reference_tokens_def get_io_def Let_def split: option.splits)

lemma connect_accepts:
  assumes "upcoming p (connection_tokens (out, i, ip) @ ts)"
    and "output_ok c (world p) out"
    and "get_device c (world p) (Some i) \<noteq> None"
    and "make_connection c (world p) (Some i) (Some ip) (Some (fst out)) (snd out)
           = (NETWORK_NO_ERROR, w)"
  shows "fst (connect c p) = Some True \<and> upcoming (snd (connect c p)) ts \<and>
         world (snd (connect c p)) = w \<and> quiet p (snd (connect c p))"
proof -
  let ?rest = "reference_tokens (i, Some ip) @ semicolon # ts"
  have u: "upcoming p (reference_tokens out @ (Some AR, Some ARROW) # ?rest)"
    using assms(1) by (simp add: connection_tokens_def)
  have na: "fst (Some AR, Some ARROW) \<noteq> Some PE" by simp
  obtain p1 where g1: "get_io c OUTPUT p = ((Some (fst out), snd out), p1)"
    and u1: "upcoming p1 ((Some AR, Some ARROW) # ?rest)"
    and w1: "world p1 = world p" and q1: "quiet p p1"
    using get_io_output_accepts [OF u na assms(2)] by metis
  let ?p2 = "next_symbol p1"
  have u2: "upcoming ?p2 ?rest" using u1 by simp
  have d2: "get_device c (world ?p2) (Some i) \<noteq> None" using assms(3) w1 by simp
  obtain p3 where g3: "get_io c INPUT ?p2 = ((Some i, Some ip), p3)"
    and u3: "upcoming p3 (semicolon # ts)"
    and w3: "world p3 = world p" and q3: "quiet ?p2 p3"
    using get_io_input_accepts [OF u2 d2] w1 by (metis next_symbol_frame(5))
  have t2: "sym_type (symbol ?p2) = Some NAMES"
    using u2 by (simp add: reference_tokens_def)
  have t1: "sym_type (symbol p1) = Some AR" using u1 by simp
  have t3: "sym_type (symbol p3) = Some SCL" "upcoming (next_symbol p3) ts"
    using u3 by (simp_all add: semicolon_def)
  have q: "quiet p p3" using q1 q3 by (simp add: quiet_def)
  from g1 g3 t1 t2 t3 w3 assms(4) q show ?thesis
    by (simp add: connect_def Let_def)
qed

lemma monitor_accepts:
  assumes "upcoming p (monitor_tokens out @ ts)"
    and "output_ok c (world p) out"
    and "make_monitor c (world p) (Some (fst out)) (snd out) = (MONITORS_NO_ERROR, w)"
  shows "upcoming (snd (monitor c p)) ts \<and>
         world (snd (monitor c p)) = w \<and> quiet p (snd (monitor c p))"
proof -
  have u: "upcoming p (reference_tokens out @ semicolon # ts)"
    using assms(1) by (simp add: monitor_tokens_def)
  have ns: "fst semicolon \<noteq> Some PE" by (simp add: semicolon_def)
  obtain p1 where g1: "get_io c OUTPUT p = ((Some (fst out), snd out), p1)"
    and u1: "upcoming p1 (semicolon # ts)"
    and w1: "world p1 = world p" and q1: "quiet p p1"
    using get_io_output_accepts [OF u ns assms(2)] by metis
  have t1: "sym_type (symbol p1) = Some SCL" "upcoming (next_symbol p1) ts"
    using u1 by (simp_all add: semicolon_def)
  from g1 t1 w1 q1 assms(3) show ?thesis
    by (simp add: monitor_def Let_def)
qed


lemma device_keywords_not_end: "kw \<in> set device_keywords \<Longrightarrow> kw \<noteq> END \<and> kw \<noteq> EOF"
  by (auto simp: device_keywords_def)

lemma build_devices:
  "upcoming p (concat (map device_tokens ds) @ keyword END # ts) \<Longrightarrow>
   declare_devices c (world p) ds = Some w \<Longrightarrow>
     fst (build_loop c DEVICETYPE Device True p) \<and>
     upcoming (snd (build_loop c DEVICETYPE Device True p)) (keyword END # ts) \<and>
     world (snd (build_loop c DEVICETYPE Device True p)) = w \<and>
     quiet p (snd (build_loop c DEVICETYPE Device True p))"
proof (induction ds arbitrary: p)
  case Nil
  then show ?case by (simp add: keyword_def build_loop_done)
next
  case (Cons d ds)
  obtain kw n pr where d: "d = (kw, n, pr)" by (cases d)
  let ?w = "snd (make_device c (world p) (Some n) (Some kw) (item_property c kw pr))"
  from Cons.prems(2) d have ok: "kw \<in> set device_keywords" "property_token pr"
    "get_device c (world p) (Some n) = None"
    "make_device c (world p) (Some n) (Some kw) (item_property c kw pr)
       = (DEVICES_NO_ERROR, ?w)"
    and rest: "declare_devices c ?w ds = Some w"
    by (auto split: if_splits intro: prod_eqI)
  have u: "upcoming p (device_tokens (kw, n, pr)
                         @ (concat (map device_tokens ds) @ keyword END # ts))"
    using Cons.prems(1) d by simp
  note a = device_accepts [OF u ok]
  have h: "sym_type (symbol p) = Some DEVICETYPE" "sym_id (symbol p) = Some kw"
    using u by (simp_all add: device_tokens_def)
  with device_keywords_not_end [OF ok(1)]
  have step: "build_loop c DEVICETYPE Device True p
                = build_loop c DEVICETYPE Device True (snd (device c p))"
    using a by (simp add: build_loop_item call_method_def)
  from a rest have "declare_devices c (world (snd (device c p))) ds = Some w" by simp
  from Cons.IH [OF _ this] a step show ?case
    by (auto intro: quiet_trans)
qed

lemma output_ok_names: "output_ok c w r \<Longrightarrow> fst r \<noteq> END \<and> fst r \<noteq> EOF"
  by (simp add: output_ok_def)

lemma reference_head:
  "upcoming p (reference_tokens r @ ts) \<Longrightarrow>
     sym_type (symbol p) = Some NAMES \<and> sym_id (symbol p) = Some (fst r)"
  by (cases r) (auto simp: reference_tokens_def split: option.splits)

lemma build_connections:
  "upcoming p (concat (map connection_tokens cs) @ keyword END # ts) \<Longrightarrow>
   make_connections c (world p) cs = Some w \<Longrightarrow>
     fst (build_loop c NAMES Connect True p) \<and>
     upcoming (snd (build_loop c NAMES Connect True p)) (keyword END # ts) \<and>
     world (snd (build_loop c NAMES Connect True p)) = w \<and>
     quiet p (snd (build_loop c NAMES Connect True p))"
proof (induction cs arbitrary: p)
  case Nil
  then show ?case by (simp add: keyword_def build_loop_done)
next
  case (Cons x cs)
  obtain out i ip where x: "x = (out, i, ip)" by (cases x)
  let ?w = "snd (make_connection c (world p) (Some i) (Some ip) (Some (fst out)) (snd out))"
  from Cons.prems(2) x have ok: "output_ok c (world p) out"
    "get_device c (world p) (Some i) \<noteq> None"
    "make_connection c (world p) (Some i) (Some ip) (Some (fst out)) (snd out)
       = (NETWORK_NO_ERROR, ?w)"
    and rest: "make_connections c ?w cs = Some w"
    by (auto split: if_splits intro: prod_eqI)
  have u: "upcoming p (connection_tokens (out, i, ip)
                         @ (concat (map connection_tokens cs) @ keyword END # ts))"
    using Cons.prems(1) x by simp
  note a = connect_accepts [OF u ok]
  have "upcoming p (reference_tokens out @ ((Some AR, Some ARROW)
          # reference_tokens (i, Some ip) @ semicolon
          # concat (map connection_tokens cs) @ keyword END # ts))"
    using u by (simp add: connection_tokens_def)
  from reference_head [OF this] output_ok_names [OF ok(1)]
  have step: "build_loop c NAMES Connect True p
                = build_loop c NAMES Connect True (snd (connect c p))"
    using a by (simp add: build_loop_item call_method_def)
  from a rest have "make_connections c (world (snd (connect c p))) cs = Some w" by simp
  from Cons.IH [OF _ this] a step show ?case
    by (auto intro: quiet_trans)
qed

lemma build_monitors:
  "upcoming p (concat (map monitor_tokens ms) @ keyword END # ts) \<Longrightarrow>
   make_monitors c (world p) ms = Some w \<Longrightarrow>
     upcoming (snd (build_loop c NAMES Monitor s p)) (keyword END # ts) \<and>
     world (snd (build_loop c NAMES Monitor s p)) = w \<and>
     quiet p (snd (build_loop c NAMES Monitor s p))"
proof (induction ms arbitrary: p s)
  case Nil
  then show ?case by (simp add: keyword_def build_loop_done)
next
  case (Cons out ms)
  let ?w = "snd (make_monitor c (world p) (Some (fst out)) (snd out))"
  from Cons.prems(2) have ok: "output_ok c (world p) out"
    "make_monitor c (world p) (Some (fst out)) (snd out) = (MONITORS_NO_ERROR, ?w)"
    and rest: "make_monitors c ?w ms = Some w"
    by (auto split: if_splits intro: prod_eqI)
  have u: "upcoming p (monitor_tokens out
                         @ (concat (map monitor_tokens ms) @ keyword END # ts))"
    using Cons.prems(1) by simp
  note a = monitor_accepts [OF u ok]
  have "upcoming p (reference_tokens out
          @ (semicolon # concat (map monitor_tokens ms) @ keyword END # ts))"
    using u by (simp add: monitor_tokens_def)
  from reference_head [OF this] output_ok_names [OF ok(1)]
  have step: "build_loop c NAMES Monitor s p
                = build_loop c NAMES Monitor
                    (if fst (monitor c p) \<noteq> Some True then False else s) (snd (monitor c p))"
    by (simp add: build_loop_item call_method_def)
  from a rest have "make_monitors c (world (snd (monitor c p))) ms = Some w" by simp
  from Cons.IH [OF _ this] a step show ?case
    by (auto intro: quiet_trans)
qed


lemma check_keyword_accepts:
  "upcoming p (keyword k # colon # ts) \<Longrightarrow>
     check_keyword c k p = (True, next_symbol (next_symbol p)) \<and>
     upcoming (next_symbol (next_symbol p)) ts"
  by (simp add: check_keyword_def keyword_def colon_def)

lemma check_end_accepts:
  "upcoming p (keyword END # ts) \<Longrightarrow>
     check_end c r p = next_symbol p \<and> upcoming (next_symbol p) ts"
  by (simp add: check_end_def keyword_def)

lemma quiet_flags:
  "quiet p q \<Longrightarrow>
     error_count q = error_count p \<and> error_messages q = error_messages p \<and>
     reached_eof q = reached_eof p"
  by (simp add: quiet_def)

lemma devicelist_accepts:
  assumes "\<not> reached_eof p"
    and "upcoming p (keyword DEVICE_LIST # colon
                       # concat (map device_tokens ds) @ keyword END # ts)"
    and "declare_devices c (world p) ds = Some w"
  shows "fst (devicelist c p) = Some True \<and> upcoming (snd (devicelist c p)) ts \<and>
         world (snd (devicelist c p)) = w \<and> quiet p (snd (devicelist c p))"
proof -
  let ?p1 = "next_symbol (next_symbol p)"
  note k = check_keyword_accepts [OF assms(2), of c]
  have w1: "declare_devices c (world ?p1) ds = Some w" using assms(3) by simp
  note b = build_devices [OF k [THEN conjunct2] w1]
  let ?p2 = "snd (build_loop c DEVICETYPE Device True ?p1)"
  note e = check_end_accepts [OF b [THEN conjunct2, THEN conjunct1], of c True]
  have "devicelist c p = (Some True, next_symbol ?p2)"
    using assms(1) k b e by (simp add: devicelist_def build_list_def split_beta)
  moreover have "quiet p (next_symbol ?p2)"
    using b by (simp add: quiet_def)
  ultimately show ?thesis using e b by simp
qed

lemma connectionlist_accepts:
  assumes "\<not> reached_eof p"
    and "upcoming p (keyword CONNECTION_LIST # colon
                       # concat (map connection_tokens cs) @ keyword END # ts)"
    and "make_connections c (world p) cs = Some w"
    and "check_network c w"
  shows "fst (connectionlist c True p) = Some True \<and>
         upcoming (snd (connectionlist c True p)) ts \<and>
         world (snd (connectionlist c True p)) = w \<and>
         quiet p (snd (connectionlist c True p))"
proof -
  let ?p1 = "next_symbol (next_symbol p)"
  note k = check_keyword_accepts [OF assms(2), of c]
  have w1: "make_connections c (world ?p1) cs = Some w" using assms(3) by simp
  note b = build_connections [OF k [THEN conjunct2] w1]
  let ?p2 = "snd (build_loop c NAMES Connect True ?p1)"
  note e = check_end_accepts [OF b [THEN conjunct2, THEN conjunct1], of c True]
  have "connectionlist c True p = (Some True, next_symbol ?p2)"
    using assms(1,4) k b e by (simp add: connectionlist_def build_list_def split_beta)
  moreover have "quiet p (next_symbol ?p2)"
    using b by (simp add: quiet_def)
  ultimately show ?thesis using e b by simp
qed

lemma monitorlist_accepts:
  assumes "\<not> reached_eof p"
    and "upcoming p (keyword MONITOR_LIST # colon
                       # concat (map monitor_tokens ms) @ [keyword END, (None, Some EOF)])"
    and "make_monitors c (world p) ms = Some w"
    and "\<not> monitors_dictionary_empty c w"
  shows "sym_id (symbol (monitorlist c True p)) = Some EOF \<and>
         world (monitorlist c True p) = w \<and> quiet p (monitorlist c True p)"
proof -
  let ?p1 = "next_symbol (next_symbol p)"
  have u: "upcoming p (keyword MONITOR_LIST # colon
                       # concat (map monitor_tokens ms) @ keyword END # [(None, Some EOF)])"
    using assms(2) by simp
  note k = check_keyword_accepts [OF u, of c]
  have w1: "make_monitors c (world ?p1) ms = Some w" using assms(3) by simp
  note b = build_monitors [OF k [THEN conjunct2] w1, of True]
  let ?p2 = "snd (build_loop c NAMES Monitor True ?p1)"
  note e = check_end_accepts [OF b [THEN conjunct1], of c False]
  have eof: "sym_id (symbol (next_symbol ?p2)) = Some EOF"
    using e by simp
  have "monitorlist c True p = next_symbol ?p2"
    using assms(1,4) k b e eof
    by (simp add: monitorlist_def build_list_def split_beta Let_def)
  moreover have "quiet p (next_symbol ?p2)"
    using b by (simp add: quiet_def)
  ultimately show ?thesis using eof b by simp
qed

text \<open>
  C2, amended. Every program whose symbols are the three sections in order, with items
  of the shapes above (each pin suffix a NAME symbol, as in \<open>sw1 -> g1.I1;\<close>), and
  whose constructions the collaborators accept, parses: \<open>parse_network\<close> returns
  \<open>True\<close>, reports nothing, leaves the error count at zero and builds the accepted
  network. The example program with its pins written as names is such a program.
\<close>

theorem valid_program_parses:
  assumes "stream (scanner p) (program_tokens ds cs ms)"
    and "error_count p = 0" and "\<not> reached_eof p"
    and "accepted c (world p) ds cs ms = Some w"
  shows "fst (parse_network c p) = True \<and> fst (snd (parse_network c p)) = [] \<and>
         error_count (snd (snd (parse_network c p))) = 0 \<and>
         error_messages (snd (snd (parse_network c p))) = error_messages p \<and>
         world (snd (snd (parse_network c p))) = w"
proof -
  from assms(4) obtain w1 w2 where a:
    "declare_devices c (world p) ds = Some w1" "make_connections c w1 cs = Some w2"
    "check_network c w2" "make_monitors c w2 ms = Some w" "\<not> monitors_dictionary_empty c w"
    by (auto simp: accepted_def split: option.splits if_splits)
  let ?p0 = "next_symbol p"
  let ?m = "keyword MONITOR_LIST # colon
              # concat (map monitor_tokens ms) @ [keyword END, (None, Some EOF)]"
  let ?c = "keyword CONNECTION_LIST # colon
              # concat (map connection_tokens cs) @ keyword END # ?m"
  have u0: "upcoming ?p0 (keyword DEVICE_LIST # colon
                            # concat (map device_tokens ds) @ keyword END # ?c)"
    using assms(1) by (simp only: stream_upcoming program_tokens_def append.simps append_assoc)
  have r0: "\<not> reached_eof ?p0" using assms(3) by simp
  have d0: "declare_devices c (world ?p0) ds = Some w1" using a(1) by simp
  note d = devicelist_accepts [OF r0 u0 d0]
  let ?p1 = "snd (devicelist c ?p0)"
  from d r0 have r1: "\<not> reached_eof ?p1" by (simp add: quiet_def)
  from d a(2) have c1: "make_connections c (world ?p1) cs = Some w2" by simp
  note cn = connectionlist_accepts [OF r1 d [THEN conjunct2, THEN conjunct1] c1 a(3)]
  let ?p2 = "snd (connectionlist c True ?p1)"
  from cn r1 have r2: "\<not> reached_eof ?p2" by (simp add: quiet_def)
  from cn a(4) have m2: "make_monitors c (world ?p2) ms = Some w" by simp
  note mn = monitorlist_accepts [OF r2 cn [THEN conjunct2, THEN conjunct1] m2 a(5)]
  have ps: "parse_sections c p = monitorlist c True ?p2"
    using d cn by (simp add: parse_sections_def split_beta)
  have "quiet p (monitorlist c True ?p2)"
    using d cn mn by (simp add: quiet_def)
  with ps mn assms(2) show ?thesis
    by (simp add: parse_network_def Let_def quiet_def)
qed

theorem valid_program_parses_witness:
  "stream (scanner (Parser sim_empty (Scanner example_named_pins)))
     (program_tokens
        [(''SWITCH'', ''sw1'', Some (Some PROPERTY, Some OFF)),
         (''AND'', ''g1'', Some (Some NUMBER, Some ''2''))]
        [((''sw1'', None), ''g1'', ''I1''), ((''sw1'', None), ''g1'', ''I2'')]
        [(''g1'', None)]) \<and>
   accepted sim_collab sim_empty
        [(''SWITCH'', ''sw1'', Some (Some PROPERTY, Some OFF)),
         (''AND'', ''g1'', Some (Some NUMBER, Some ''2''))]
        [((''sw1'', None), ''g1'', ''I1''), ((''sw1'', None), ''g1'', ''I2'')]
        [(''g1'', None)]
     = Some \<lparr>devices_list =
               [\<lparr>device_id = ''sw1'', device_kind = ''SWITCH'', inputs = [],
                  outputs = [None]\<rparr>,
                \<lparr>device_id = ''g1'', device_kind = ''AND'',
                  inputs = [(''I1'', Some (''sw1'', None)), (''I2'', Some (''sw1'', None))],
                  outputs = [None]\<rparr>],
              monitors_dictionary = [(''g1'', None)]\<rparr> \<and>
   fst (parse example_named_pins) = True \<and>
   fst (snd (parse example_named_pins)) = []"
proof -
  let ?p = "Parser sim_empty (Scanner example_named_pins)"
  let ?ds = "[(''SWITCH'', ''sw1'', Some (Some PROPERTY, Some OFF)),
              (''AND'', ''g1'', Some (Some NUMBER, Some ''2''))]"
  let ?cs = "[((''sw1'', None), ''g1'', ''I1''), ((''sw1'', None), ''g1'', ''I2'')]"
  let ?ms = "[(''g1'', None :: ident option)]"
  let ?w = "\<lparr>devices_list =
               [\<lparr>device_id = ''sw1'', device_kind = ''SWITCH'', inputs = [],
                  outputs = [None]\<rparr>,
                \<lparr>device_id = ''g1'', device_kind = ''AND'',
                  inputs = [(''I1'', Some (''sw1'', None)), (''I2'', Some (''sw1'', None))],
                  outputs = [None]\<rparr>],
              monitors_dictionary = [(''g1'', None)]\<rparr>"
  have h1: "stream (scanner ?p) (program_tokens ?ds ?cs ?ms)" by code_simp
  have h2: "error_count ?p = 0" by (simp add: Parser_def)
  have h3: "\<not> reached_eof ?p" by (simp add: Parser_def)
  have h4: "accepted sim_collab (world ?p) ?ds ?cs ?ms = Some ?w" by code_simp
  have wp: "world ?p = sim_empty" by (simp add: Parser_def)
  from valid_program_parses [OF h1 h2 h3 h4] h1 h4 wp show ?thesis
    by (simp add: parse_def)
qed


end
